theory Spec2Isabelle
  imports Complex_Main
begin

section \<open>Logistic regression on images: the two notebooks\<close>

text \<open>
  The repository is two notebooks. \<^emph>\<open>Prepare dataset\<close> lists an image directory,
  bootstraps \<^verbatim>\<open>labels.csv\<close>, loads the images, and splits them 70/30.
  \<^emph>\<open>Logistic regression\<close> trains a logistic-regression classifier by gradient descent
  and reports its accuracy.

  Modelling conventions.
  \<^item> A two-dimensional numpy array is a record of its two shape components and its rows.
    The shape is kept apart from the rows because numpy has arrays of shape \<open>(0, m)\<close>.
  \<^item> The notebook is modelled twice. In the first model array entries are \<^typ>\<open>real\<close>
    and arithmetic is exact; it serves the statements about formulas, shapes and
    exceptions, and the one place where a non-finite value arises from finite operands in
    exact arithmetic, \<^verbatim>\<open>np.log\<close> of a number that is not positive, is explicit there.
    In the second model array entries are binary64 values, with rounding to nearest,
    overflow to \<open>inf\<close>, and \<open>nan\<close>; it serves the statements whose truth depends on them:
    the range of the forward pass and the update with learning rate 0.
  \<^item> \<^verbatim>\<open>np.exp\<close>, \<^verbatim>\<open>np.log\<close>, \<^verbatim>\<open>np.dot\<close> and \<^verbatim>\<open>np.sum\<close> are compiled library code
    outside the repository. The binary64 model takes them as a parameter; general
    statements hold for every library, or under a stated assumption on it, and runs
    on concrete inputs use one reference library.
  \<^item> The one place where rounding decides an integer, \<^verbatim>\<open>int(0.7 * images_count)\<close>, is
    modelled bit-exactly on integers.
  \<^item> A Python exception is a value \<open>Inl e\<close> of a sum type.
\<close>

subsection \<open>Arrays\<close>

datatype error =
  ZeroDivisionError | ValueError | IndexError | FileNotFoundError | NotADirectoryError
  | PermissionError | OSError

record 'a ndarray =
  shape0 :: nat
  shape1 :: nat
  rows :: "'a list list"

definition is_ndarray :: "'a ndarray \<Rightarrow> bool" where
  "is_ndarray A \<longleftrightarrow>
     length (rows A) = shape0 A \<and> list_all (\<lambda>r. length r = shape1 A) (rows A)"

definition shape :: "'a ndarray \<Rightarrow> nat \<times> nat" where
  "shape A = (shape0 A, shape1 A)"

text \<open>\<^verbatim>\<open>A[i, j]\<close> for indices in range.\<close>

definition item :: "'a ndarray \<Rightarrow> nat \<Rightarrow> nat \<Rightarrow> 'a" where
  "item A i j = rows A ! i ! j"

text \<open>The array of shape \<open>(r, c)\<close> whose entry \<open>(i, j)\<close> is \<open>f i j\<close>.\<close>

definition tabulate2 :: "nat \<Rightarrow> nat \<Rightarrow> (nat \<Rightarrow> nat \<Rightarrow> 'a) \<Rightarrow> 'a ndarray" where
  "tabulate2 r c f =
     \<lparr>shape0 = r, shape1 = c, rows = map (\<lambda>i. map (\<lambda>j. f i j) [0..<c]) [0..<r]\<rparr>"

text \<open>\<^verbatim>\<open>np.zeros((r, c))\<close>\<close>

definition zeros :: "nat \<Rightarrow> nat \<Rightarrow> real ndarray" where
  "zeros r c = tabulate2 r c (\<lambda>i j. 0)"

text \<open>\<^verbatim>\<open>A.T\<close>\<close>

definition transpose_nd :: "'a ndarray \<Rightarrow> 'a ndarray" where
  "transpose_nd A = tabulate2 (shape1 A) (shape0 A) (\<lambda>i j. item A j i)"

text \<open>
  \<^verbatim>\<open>np.dot(A, B)\<close> on two-dimensional arrays: the matrix product, a \<^verbatim>\<open>ValueError\<close>
  (shapes not aligned) when the inner dimensions differ.
\<close>

definition dot :: "real ndarray \<Rightarrow> real ndarray \<Rightarrow> error + real ndarray" where
  "dot A B =
     (if shape1 A \<noteq> shape0 B then Inl ValueError
      else Inr (tabulate2 (shape0 A) (shape1 B)
                  (\<lambda>i j. \<Sum>k\<leftarrow>[0..<shape1 A]. item A i k * item B k j)))"

text \<open>An elementwise operation with a scalar or of one argument keeps the shape.\<close>

definition map_nd :: "('a \<Rightarrow> 'b) \<Rightarrow> 'a ndarray \<Rightarrow> 'b ndarray" where
  "map_nd f A = \<lparr>shape0 = shape0 A, shape1 = shape1 A, rows = map (map f) (rows A)\<rparr>"

text \<open>
  Broadcasting of one axis: two lengths are compatible when they are equal or one of
  them is 1; numpy raises \<^verbatim>\<open>ValueError\<close> otherwise.
\<close>

definition broadcast_dim :: "nat \<Rightarrow> nat \<Rightarrow> error + nat" where
  "broadcast_dim a b =
     (if a = b then Inr a else if a = 1 then Inr b else if b = 1 then Inr a
      else Inl ValueError)"

text \<open>An elementwise binary operation on two-dimensional arrays, with broadcasting.\<close>

definition broadcast2 ::
  "('a \<Rightarrow> 'b \<Rightarrow> 'c) \<Rightarrow> 'a ndarray \<Rightarrow> 'b ndarray \<Rightarrow> error + 'c ndarray" where
  "broadcast2 f A B =
     (case broadcast_dim (shape0 A) (shape0 B) of
        Inl e \<Rightarrow> Inl e
      | Inr r \<Rightarrow>
         (case broadcast_dim (shape1 A) (shape1 B) of
            Inl e \<Rightarrow> Inl e
          | Inr c \<Rightarrow>
             Inr (tabulate2 r c
               (\<lambda>i j. f (item A (if shape0 A = 1 then 0 else i) (if shape1 A = 1 then 0 else j))
                        (item B (if shape0 B = 1 then 0 else i) (if shape1 B = 1 then 0 else j))))))"

subsection \<open>Forward pass\<close>

text \<open>
  \<^verbatim>\<open>def sigmoid(z): return 1 / (1 + np.exp(-z))\<close>, on one number and elementwise on an
  array.
\<close>

definition sigmoid1 :: "real \<Rightarrow> real" where
  "sigmoid1 z = 1 / (1 + exp (- z))"

definition sigmoid :: "real ndarray \<Rightarrow> real ndarray" where
  "sigmoid Z = map_nd sigmoid1 Z"

text \<open>
  \<^verbatim>\<open>def predict(W, X, b): Z = np.dot(W.T, X) + b; return sigmoid(Z)\<close>.
  The bias is the Python number 0 before the first update of the training loop and a
  one-element array holding one number afterwards; numpy broadcasts both over \<open>Z\<close> in the
  same way, so the model keeps the number.
\<close>

definition predict :: "real ndarray \<Rightarrow> real ndarray \<Rightarrow> real \<Rightarrow> error + real ndarray" where
  "predict W X b =
     (case dot (transpose_nd W) X of
        Inl e \<Rightarrow> Inl e
      | Inr WX \<Rightarrow> Inr (sigmoid (map_nd (\<lambda>z. z + b) WX)))"

subsection \<open>Cost and gradients\<close>

text \<open>
  \<^verbatim>\<open>np.log\<close> returns \<open>-inf\<close> at 0 and \<open>nan\<close> below 0, with a warning and no exception.
  \<open>None\<close> stands for such a non-finite value.
\<close>

definition np_log :: "real \<Rightarrow> real option" where
  "np_log x = (if 0 < x then Some (ln x) else None)"

text \<open>
  One entry of \<^verbatim>\<open>-Y * np.log(A) - (1 - Y) * np.log(1 - A)\<close>. When one of the logarithms
  is not finite, so is the entry (a product or difference with an operand \<open>inf\<close> or \<open>nan\<close>
  is \<open>inf\<close> or \<open>nan\<close>).
\<close>

definition loss1 :: "real \<Rightarrow> real \<Rightarrow> real option" where
  "loss1 y a =
     (case np_log a of
        None \<Rightarrow> None
      | Some la \<Rightarrow>
         (case np_log (1 - a) of
            None \<Rightarrow> None
          | Some lb \<Rightarrow> Some (- y * la - (1 - y) * lb)))"

text \<open>The sum of a row that may hold non-finite values.\<close>

fun sum_opt :: "real option list \<Rightarrow> real option" where
  "sum_opt [] = Some 0"
| "sum_opt (x # xs) =
     (case x of
        None \<Rightarrow> None
      | Some a \<Rightarrow> (case sum_opt xs of None \<Rightarrow> None | Some s \<Rightarrow> Some (a + s)))"

text \<open>
  \<^verbatim>\<open>
  def cost(Y, A):
      m = Y.shape[1]
      loss = -Y * np.log(A) - (1 - Y) * np.log(1 - A)
      return (1 / m) * np.sum(loss, axis=1)
  \<close>
  \<open>m\<close> is a Python int, so \<^verbatim>\<open>1 / m\<close> raises \<^verbatim>\<open>ZeroDivisionError\<close> when \<open>m = 0\<close>. The
  result is a one-dimensional array with one entry for each row of \<open>loss\<close>.
\<close>

definition cost :: "real ndarray \<Rightarrow> real ndarray \<Rightarrow> error + real option list" where
  "cost Y A =
     (let m = shape1 Y in
      case broadcast2 loss1 Y A of
        Inl e \<Rightarrow> Inl e
      | Inr loss \<Rightarrow>
         if m = 0 then Inl ZeroDivisionError
         else Inr (map (\<lambda>r. map_option (\<lambda>s. (1 / real m) * s) (sum_opt r)) (rows loss)))"

text \<open>
  \<^verbatim>\<open>
  def dw(X, A, Y):
      m = Y.shape[1]
      return (1 / m) * np.dot(X, (A - Y).T)
  \<close>
  The left operand \<^verbatim>\<open>1 / m\<close> is evaluated first.
\<close>

definition dw :: "real ndarray \<Rightarrow> real ndarray \<Rightarrow> real ndarray \<Rightarrow> error + real ndarray" where
  "dw X A Y =
     (let m = shape1 Y in
      if m = 0 then Inl ZeroDivisionError
      else
        case broadcast2 (\<lambda>a y. a - y) A Y of
          Inl e \<Rightarrow> Inl e
        | Inr D \<Rightarrow>
           (case dot X (transpose_nd D) of
              Inl e \<Rightarrow> Inl e
            | Inr P \<Rightarrow> Inr (map_nd (\<lambda>p. (1 / real m) * p) P)))"

text \<open>
  \<^verbatim>\<open>
  def db(A, Y):
      m = Y.shape[1]
      return (1 / m) * np.sum((A - Y), axis=1)
  \<close>
  The result is a one-dimensional array with one entry for each row of \<open>A - Y\<close>.
\<close>

definition db :: "real ndarray \<Rightarrow> real ndarray \<Rightarrow> error + real list" where
  "db A Y =
     (let m = shape1 Y in
      if m = 0 then Inl ZeroDivisionError
      else
        case broadcast2 (\<lambda>a y. a - y) A Y of
          Inl e \<Rightarrow> Inl e
        | Inr D \<Rightarrow> Inr (map (\<lambda>r. (1 / real m) * sum_list r) (rows D)))"

subsection \<open>Binarization\<close>

text \<open>\<^verbatim>\<open>A[i, j]\<close> and \<^verbatim>\<open>A[i, j] = v\<close> raise \<^verbatim>\<open>IndexError\<close> out of range.\<close>

definition getitem :: "'a ndarray \<Rightarrow> nat \<Rightarrow> nat \<Rightarrow> error + 'a" where
  "getitem A i j = (if i < shape0 A \<and> j < shape1 A then Inr (item A i j) else Inl IndexError)"

definition setitem :: "'a ndarray \<Rightarrow> nat \<Rightarrow> nat \<Rightarrow> 'a \<Rightarrow> error + 'a ndarray" where
  "setitem A i j v =
     (if i < shape0 A \<and> j < shape1 A
      then Inr (A\<lparr>rows := (rows A)[i := (rows A ! i)[j := v]]\<rparr>)
      else Inl IndexError)"

text \<open>
  \<^verbatim>\<open>
  def binarize(A):
      for i in range(A.shape[1]):
          A[0,i] = 1 if A[0,i] > 0.5 else 0
      return A
  \<close>
  The array is changed in place and returned; the model returns its new contents. Only
  row 0 is visited.
\<close>

fun binarize_loop :: "nat list \<Rightarrow> real ndarray \<Rightarrow> error + real ndarray" where
  "binarize_loop [] A = Inr A"
| "binarize_loop (i # is) A =
     (case getitem A 0 i of
        Inl e \<Rightarrow> Inl e
      | Inr a \<Rightarrow>
         (case setitem A 0 i (if a > 0.5 then 1 else 0) of
            Inl e \<Rightarrow> Inl e
          | Inr A' \<Rightarrow> binarize_loop is A'))"

definition binarize :: "real ndarray \<Rightarrow> error + real ndarray" where
  "binarize A = binarize_loop [0..<shape1 A] A"

subsection \<open>Training loop\<close>

text \<open>
  Cell 2 of the notebook: \<^verbatim>\<open>y_train = training_set_y_input.reshape(m_train, 1)\<close> turns
  the label vector into a column, so \<open>y_train\<close> always has shape \<open>(k, 1)\<close>. The training
  cell is modelled for every such column, also one whose length differs from the number
  of columns of \<open>X_train\<close> (numpy then raises in the loop, or broadcasts).
\<close>

definition reshape_column :: "real list \<Rightarrow> real ndarray" where
  "reshape_column ys = \<lparr>shape0 = length ys, shape1 = 1, rows = map (\<lambda>y. [y]) ys\<rparr>"

text \<open>The variables of the notebook that the training cell assigns.\<close>

record train_state =
  st_W :: "real ndarray"
  st_b :: real
  st_costs :: "real option list list"

text \<open>
  One run of the loop body, for the loop index \<open>i\<close>:
  \<^verbatim>\<open>
      A = predict(W, X_train, b)
      J = cost(y_train.T, A)
      if i % 100 == 0:
          costs.append(J)
          print("Cost: ", J)
      _dw = dw(X_train, A, y_train.T)
      _db = db(A, y_train.T)
      W = W - learning_rate * _dw
      b = b - learning_rate * _db
  \<close>
  The result is the state when the body ends, and the exception that ended it, if any.
  \<open>A\<close> and \<open>y_train.T\<close> have one row, so \<open>_db\<close> has one entry and \<open>b\<close> stays one number; the
  last case of the model does not arise.
\<close>

definition gd_step ::
  "real \<Rightarrow> real ndarray \<Rightarrow> real ndarray \<Rightarrow> nat \<Rightarrow> train_state \<Rightarrow> train_state \<times> error option" where
  "gd_step learning_rate X_train y_train i s =
     (case predict (st_W s) X_train (st_b s) of
        Inl e \<Rightarrow> (s, Some e)
      | Inr A \<Rightarrow>
     (case cost (transpose_nd y_train) A of
        Inl e \<Rightarrow> (s, Some e)
      | Inr J \<Rightarrow>
     (let s1 = (if i mod 100 = 0 then s\<lparr>st_costs := st_costs s @ [J]\<rparr> else s) in
      case dw X_train A (transpose_nd y_train) of
        Inl e \<Rightarrow> (s1, Some e)
      | Inr dw' \<Rightarrow>
     (case db A (transpose_nd y_train) of
        Inl e \<Rightarrow> (s1, Some e)
      | Inr db' \<Rightarrow>
     (case broadcast2 (\<lambda>w g. w - g) (st_W s1) (map_nd (\<lambda>g. learning_rate * g) dw') of
        Inl e \<Rightarrow> (s1, Some e)
      | Inr W' \<Rightarrow>
     (case db' of
        [d] \<Rightarrow> (s1\<lparr>st_W := W', st_b := st_b s1 - learning_rate * d\<rparr>, None)
      | _ \<Rightarrow> (s1, Some ValueError)))))))"

text \<open>\<^verbatim>\<open>for i in range(iterations)\<close>: the loop stops at the first exception.\<close>

fun gd_loop ::
  "real \<Rightarrow> real ndarray \<Rightarrow> real ndarray \<Rightarrow> nat list \<Rightarrow> train_state \<Rightarrow> train_state \<times> error option" where
  "gd_loop learning_rate X_train y_train [] s = (s, None)"
| "gd_loop learning_rate X_train y_train (i # is) s =
     (case gd_step learning_rate X_train y_train i s of
        (s', Some e) \<Rightarrow> (s', Some e)
      | (s', None) \<Rightarrow> gd_loop learning_rate X_train y_train is s')"

text \<open>
  The training cell: \<^verbatim>\<open>W = np.zeros((n, 1)); b = 0; costs = []\<close>, then the loop.
  \<open>n\<close> is the number of rows of \<open>X_train\<close> (cell 2 builds \<open>X_train\<close> with \<open>n\<close> rows).
\<close>

definition train ::
  "nat \<Rightarrow> real \<Rightarrow> real ndarray \<Rightarrow> real list \<Rightarrow> train_state \<times> error option" where
  "train iterations learning_rate X_train training_set_y =
     gd_loop learning_rate X_train (reshape_column training_set_y) [0..<iterations]
       \<lparr>st_W = zeros (shape0 X_train) 1, st_b = 0, st_costs = []\<rparr>"

subsection \<open>Accuracy\<close>

text \<open>
  \<^verbatim>\<open>np.mean\<close> of all entries; of an empty array it is \<open>nan\<close> (a warning, no exception).
\<close>

definition np_mean :: "real ndarray \<Rightarrow> real option" where
  "np_mean A =
     (let n = shape0 A * shape1 A in
      if n = 0 then None else Some (sum_list (concat (rows A)) / real n))"

text \<open>
  The evaluation cell, for one partition:
  \<^verbatim>\<open>
  y_train_predictions = binarize(predict(W, X_train, b))
  print('Train accuracy: ', 100 - np.mean(np.abs(y_train_predictions - y_train)) * 100, '%')
  \<close>
  \<open>y_train\<close> is the column of cell 2, not its transpose.
\<close>

definition accuracy ::
  "real ndarray \<Rightarrow> real \<Rightarrow> real ndarray \<Rightarrow> real ndarray \<Rightarrow> error + real option" where
  "accuracy W b X y =
     (case predict W X b of
        Inl e \<Rightarrow> Inl e
      | Inr P \<Rightarrow>
         (case binarize P of
            Inl e \<Rightarrow> Inl e
          | Inr predictions \<Rightarrow>
             (case broadcast2 (\<lambda>p t. p - t) predictions y of
                Inl e \<Rightarrow> Inl e
              | Inr D \<Rightarrow> Inr (map_option (\<lambda>mu. 100 - mu * 100) (np_mean (map_nd abs D))))))"

text \<open>
  The accuracy as the specification words it: 100 times one minus the mean, over the
  examples \<open>i\<close> of the partition, of the distance between the binarized prediction for
  example \<open>i\<close> and the label of example \<open>i\<close>.
\<close>

definition accuracy_spec :: "real list \<Rightarrow> real list \<Rightarrow> real" where
  "accuracy_spec predicted actual =
     100 * (1 - (\<Sum>(p, t)\<leftarrow>zip predicted actual. \<bar>p - t\<bar>) / real (length actual))"

subsection \<open>Preparing the dataset: the label file\<close>

text \<open>
  The files the notebook reads and writes. \<open>labels_csv\<close> is \<open>None\<close> when
  \<^verbatim>\<open>labels.csv\<close> does not exist; a row holds the index column that \<^verbatim>\<open>to_csv\<close> writes, the
  file name and the label. \<open>listing\<close> is the result of \<^verbatim>\<open>os.listdir(images_dir)\<close>: the
  names it returns, or the exception it raises (\<^verbatim>\<open>FileNotFoundError\<close> when the directory
  does not exist, \<^verbatim>\<open>NotADirectoryError\<close> when the path is a regular file,
  \<^verbatim>\<open>PermissionError\<close> when it may not be read). \<open>dataset_h5\<close> is the content of
  \<^verbatim>\<open>dataset.h5\<close>.
\<close>

type_synonym csv_row = "nat \<times> string \<times> int"

definition file_name :: "csv_row \<Rightarrow> string" where
  "file_name r = fst (snd r)"

definition is_guitar :: "csv_row \<Rightarrow> int" where
  "is_guitar r = snd (snd r)"

record 'img dataset =
  training_set_x :: "'img list"
  training_set_y :: "real list"
  test_set_x :: "'img list"
  test_set_y :: "real list"

record 'img disk =
  labels_csv :: "csv_row list option"
  listing :: "error + string list"
  dataset_h5 :: "'img dataset option"

definition images_dir :: string where
  "images_dir = ''./images''"

text \<open>
  \<^verbatim>\<open>
  for filename in os.listdir(images_dir):
      df = df.append({'file_name': filename, 'is_guitar': 0}, ignore_index=True)
  \<close>
\<close>

fun append_rows :: "string list \<Rightarrow> csv_row list \<Rightarrow> csv_row list" where
  "append_rows [] df = df"
| "append_rows (filename # filenames) df =
     append_rows filenames (df @ [(length df, filename, 0)])"

text \<open>
  The labelling cell:
  \<^verbatim>\<open>
  if not os.path.exists('labels.csv'):
      df = pd.DataFrame(columns=['file_name', 'is_guitar'])
      for filename in os.listdir(images_dir): ...
      df.to_csv('labels.csv')
      print('Labels saved')
  else:
      print("labels.csv exists. Skipping")
  \<close>
  The result is the new state of the files and the line printed.
\<close>

definition label_images :: "'img disk \<Rightarrow> error + 'img disk \<times> string" where
  "label_images d =
     (case labels_csv d of
        None \<Rightarrow>
         (case listing d of
            Inl e \<Rightarrow> Inl e
          | Inr filenames \<Rightarrow>
             Inr (d\<lparr>labels_csv := Some (append_rows filenames [])\<rparr>, ''Labels saved''))
      | Some df \<Rightarrow> Inr (d, ''labels.csv exists. Skipping''))"

subsection \<open>Preparing the dataset: loading\<close>

text \<open>
  \<^verbatim>\<open>data = pd.read_csv('./labels.csv')\<close>. pandas parses the text of the file and infers
  the type of each column anew, so the rows read need not be the rows written: a file
  name \<^verbatim>\<open>NA\<close> is read as \<open>NaN\<close>, and a column of names that are all numerals is read as
  numbers (\<^verbatim>\<open>01\<close> as 1). Parsing is library code: the parameter \<open>parse\<close> gives, for the
  rows in the file, the rows of \<open>data\<close> (each file name as \<^verbatim>\<open>%s\<close> formats it), or the
  exception pandas raises.
\<close>

definition read_csv ::
  "(csv_row list \<Rightarrow> error + csv_row list) \<Rightarrow> 'img disk \<Rightarrow> error + csv_row list" where
  "read_csv parse d =
     (case labels_csv d of None \<Rightarrow> Inl FileNotFoundError | Some df \<Rightarrow> parse df)"

text \<open>\<^verbatim>\<open>path = '%s/%s' % (images_dir, filename)\<close>\<close>

definition image_path :: "string \<Rightarrow> string" where
  "image_path filename = images_dir @ ''/'' @ filename"

text \<open>
  The first loop of the loading cell. Decoding and resizing are library code: the
  parameter \<open>rd\<close> stands for \<^verbatim>\<open>plt.imread\<close> followed by \<^verbatim>\<open>skimage.transform.resize\<close>, and
  is \<open>Inl e\<close> for a path whose image cannot be read, decoded or stacked.
  \<^verbatim>\<open>
  for filename in data.file_name:
      path = '%s/%s' % (images_dir, filename)
      image = np.array(plt.imread(path))
      image = skimage.transform.resize(image, (100, 100), mode='reflect')
      images = np.append([image], images, axis=0)
  \<close>
\<close>

fun load_images :: "(string \<Rightarrow> error + 'img) \<Rightarrow> string list \<Rightarrow> 'img list \<Rightarrow> error + 'img list" where
  "load_images rd [] images = Inr images"
| "load_images rd (filename # filenames) images =
     (case rd (image_path filename) of
        Inl e \<Rightarrow> Inl e
      | Inr img \<Rightarrow> load_images rd filenames ([img] @ images))"

text \<open>
  The second loop:
  \<^verbatim>\<open>
  for is_guitar in data.is_guitar:
      labels = np.append([is_guitar], labels)
  \<close>
\<close>

fun load_labels :: "int list \<Rightarrow> real list \<Rightarrow> real list" where
  "load_labels [] labels = labels"
| "load_labels (g # gs) labels = load_labels gs ([real_of_int g] @ labels)"

text \<open>The loading cell, from the rows of the label file to \<open>images\<close> and \<open>labels\<close>.\<close>

definition load_dataset ::
  "(string \<Rightarrow> error + 'img) \<Rightarrow> csv_row list \<Rightarrow> error + 'img list \<times> real list" where
  "load_dataset rd data =
     (case load_images rd (map file_name data) [] of
        Inl e \<Rightarrow> Inl e
      | Inr images \<Rightarrow> Inr (images, load_labels (map is_guitar data) []))"

subsection \<open>Preparing the dataset: the split\<close>

text \<open>\<^verbatim>\<open>int.bit_length\<close>: the number of binary digits of a natural number.\<close>

fun bit_length :: "nat \<Rightarrow> nat" where
  "bit_length n = (if n = 0 then 0 else Suc (bit_length (n div 2)))"

declare bit_length.simps [simp del]

text \<open>
  Rounding of a natural number to 53 significant binary digits, to nearest, ties to
  even: the rounding of IEEE 754 binary64 arithmetic, for a positive value in the
  normal range, given as an integer multiple of a power of two.
\<close>

definition round53 :: "nat \<Rightarrow> nat" where
  "round53 M =
     (let L = bit_length M in
      if L \<le> 53 then M
      else
        let s = L - 53; q = M div 2 ^ s; r = M mod 2 ^ s;
            q' = (if 2 * r > 2 ^ s \<or> (2 * r = 2 ^ s \<and> odd q) then q + 1 else q)
        in q' * 2 ^ s)"

text \<open>
  The float literal \<^verbatim>\<open>0.7\<close> is the binary64 number \<open>6305039478318694 / 2^53\<close>
  (\<^verbatim>\<open>0x1.6666666666666p-1\<close>).
\<close>

definition mantissa_0_7 :: nat where
  "mantissa_0_7 = 6305039478318694"

text \<open>
  \<^verbatim>\<open>training_examples_count = int(0.7 * images_count)\<close>: the count is converted to
  binary64, the product with \<^verbatim>\<open>0.7\<close> is rounded to binary64, and \<^verbatim>\<open>int\<close> drops the
  fraction.
\<close>

definition training_examples_count :: "nat \<Rightarrow> nat" where
  "training_examples_count images_count =
     round53 (mantissa_0_7 * round53 images_count) div 2 ^ 53"

text \<open>
  The splitting cell:
  \<^verbatim>\<open>
  images_count = images.shape[0]
  training_examples_count = int(0.7 * images_count)
  test_examples_count = images_count - training_examples_count
  (training_set_x, test_set_x) = np.split(images, [training_examples_count])
  (training_set_y, test_set_y) = np.split(labels, [training_examples_count])
  \<close>
  \<^verbatim>\<open>np.split(a, [k])\<close> is the pair of \<^verbatim>\<open>a[:k]\<close> and \<^verbatim>\<open>a[k:]\<close>.
\<close>

definition split_dataset :: "'img list \<Rightarrow> real list \<Rightarrow> 'img dataset" where
  "split_dataset images labels =
     (let images_count = length images;
          k = training_examples_count images_count
      in \<lparr>training_set_x = take k images, training_set_y = take k labels,
          test_set_x = drop k images, test_set_y = drop k labels\<rparr>)"

definition test_examples_count :: "nat \<Rightarrow> int" where
  "test_examples_count images_count =
     int images_count - int (training_examples_count images_count)"

text \<open>
  The notebook from its first cell to its last; it stops at the first exception, and
  the files stay as they are then.
\<close>

definition prepare ::
  "(csv_row list \<Rightarrow> error + csv_row list) \<Rightarrow> (string \<Rightarrow> error + 'img) \<Rightarrow>
   'img disk \<Rightarrow> 'img disk \<times> error option" where
  "prepare parse rd d =
     (case label_images d of
        Inl e \<Rightarrow> (d, Some e)
      | Inr (d1, out) \<Rightarrow>
         (case read_csv parse d1 of
            Inl e \<Rightarrow> (d1, Some e)
          | Inr data \<Rightarrow>
             (case load_dataset rd data of
                Inl e \<Rightarrow> (d1, Some e)
              | Inr (images, labels) \<Rightarrow>
                 (d1\<lparr>dataset_h5 := Some (split_dataset images labels)\<rparr>, None))))"

subsection \<open>Binary64 numbers\<close>

text \<open>
  A float64 is a finite number, \<open>inf\<close>, \<open>-inf\<close> or \<open>nan\<close>. The sign of a zero is not kept:
  numpy compares \<open>0.0\<close> and \<open>-0.0\<close> equal, and the notebook divides only by \<open>1 + exp(-z)\<close>.
\<close>

datatype f64 = Fin real | PInf | NInf | NaN

text \<open>Round to the nearest integer, a tie to the even one.\<close>

definition rne :: "real \<Rightarrow> int" where
  "rne t =
     (let f = \<lfloor>t\<rfloor>; d = t - of_int f in
      if d < 1 / 2 then f else if 1 / 2 < d then f + 1 else if even f then f else f + 1)"

text \<open>
  The spacing of the binary64 numbers around \<open>x\<close>: 52 fraction bits below the exponent
  of \<open>x\<close>, and the exponent of the subnormal numbers below \<open>2\<^sup>-\<^sup>1\<^sup>0\<^sup>2\<^sup>2\<close>.
\<close>

definition quantum :: "real \<Rightarrow> real" where
  "quantum x = 2 powi (max \<lfloor>log 2 \<bar>x\<bar>\<rfloor> (- 1022) - 52)"

definition nearest :: "real \<Rightarrow> real" where
  "nearest x = quantum x * of_int (rne (x / quantum x))"

text \<open>
  IEEE 754 rounding of a real result: round to nearest, ties to even, as if the exponent
  were unbounded; a rounded magnitude of \<open>2\<^sup>1\<^sup>0\<^sup>2\<^sup>4\<close> or more overflows to the infinity of its sign.
\<close>

definition rnd :: "real \<Rightarrow> f64" where
  "rnd x =
     (if x = 0 then Fin 0
      else if 2 ^ 1024 \<le> \<bar>nearest x\<bar> then (if 0 < x then PInf else NInf)
      else Fin (nearest x))"

definition signed_inf :: "bool \<Rightarrow> f64" where
  "signed_inf positive = (if positive then PInf else NInf)"

text \<open>
  The elementwise operations of numpy on float64: unary \<^verbatim>\<open>-\<close>, \<^verbatim>\<open>+\<close>, \<^verbatim>\<open>-\<close>, \<^verbatim>\<open>*\<close> and \<^verbatim>\<open>/\<close>.
  They raise nothing (an overflow, an invalid operation or a division by zero gives a
  warning and \<open>inf\<close> or \<open>nan\<close>). \<open>inf - inf\<close>, \<open>0 * inf\<close>, \<open>0 / 0\<close> and \<open>inf / inf\<close> are \<open>nan\<close>, and
  \<open>nan\<close> propagates.
\<close>

fun fneg :: "f64 \<Rightarrow> f64" where
  "fneg (Fin x) = Fin (- x)"
| "fneg PInf = NInf"
| "fneg NInf = PInf"
| "fneg NaN = NaN"

fun fadd :: "f64 \<Rightarrow> f64 \<Rightarrow> f64" where
  "fadd (Fin x) (Fin y) = rnd (x + y)"
| "fadd (Fin x) PInf = PInf"
| "fadd (Fin x) NInf = NInf"
| "fadd PInf (Fin y) = PInf"
| "fadd PInf PInf = PInf"
| "fadd PInf NInf = NaN"
| "fadd NInf (Fin y) = NInf"
| "fadd NInf PInf = NaN"
| "fadd NInf NInf = NInf"
| "fadd NaN b = NaN"
| "fadd a NaN = NaN"

definition fsub :: "f64 \<Rightarrow> f64 \<Rightarrow> f64" where
  "fsub a b = fadd a (fneg b)"

fun fmul :: "f64 \<Rightarrow> f64 \<Rightarrow> f64" where
  "fmul (Fin x) (Fin y) = rnd (x * y)"
| "fmul (Fin x) PInf = (if x = 0 then NaN else signed_inf (0 < x))"
| "fmul (Fin x) NInf = (if x = 0 then NaN else signed_inf (x < 0))"
| "fmul PInf (Fin y) = (if y = 0 then NaN else signed_inf (0 < y))"
| "fmul NInf (Fin y) = (if y = 0 then NaN else signed_inf (y < 0))"
| "fmul PInf PInf = PInf"
| "fmul PInf NInf = NInf"
| "fmul NInf PInf = NInf"
| "fmul NInf NInf = PInf"
| "fmul NaN b = NaN"
| "fmul a NaN = NaN"

fun fdiv :: "f64 \<Rightarrow> f64 \<Rightarrow> f64" where
  "fdiv (Fin x) (Fin y) =
     (if y = 0 then (if x = 0 then NaN else signed_inf (0 < x)) else rnd (x / y))"
| "fdiv (Fin x) PInf = Fin 0"
| "fdiv (Fin x) NInf = Fin 0"
| "fdiv PInf (Fin y) = signed_inf (0 \<le> y)"
| "fdiv NInf (Fin y) = signed_inf (y < 0)"
| "fdiv PInf PInf = NaN"
| "fdiv PInf NInf = NaN"
| "fdiv NInf PInf = NaN"
| "fdiv NInf NInf = NaN"
| "fdiv NaN b = NaN"
| "fdiv a NaN = NaN"

definition is_finite :: "f64 \<Rightarrow> bool" where
  "is_finite v = (case v of Fin x \<Rightarrow> True | _ \<Rightarrow> False)"

definition in_unit_interval :: "f64 \<Rightarrow> bool" where
  "in_unit_interval v = (case v of Fin a \<Rightarrow> 0 \<le> a \<and> a \<le> 1 | _ \<Rightarrow> False)"

definition strictly_inside_unit_interval :: "f64 \<Rightarrow> bool" where
  "strictly_inside_unit_interval v = (case v of Fin a \<Rightarrow> 0 < a \<and> a < 1 | _ \<Rightarrow> False)"

subsection \<open>The library functions\<close>

text \<open>
  What the notebook calls in numpy's compiled code: \<^verbatim>\<open>np.exp\<close> and \<^verbatim>\<open>np.log\<close> on one
  number, the sum of products that \<^verbatim>\<open>np.dot\<close> computes for one entry of its result, and
  the sum that \<^verbatim>\<open>np.sum(..., axis=1)\<close> computes for one row. How they round, and in which
  order they add, is not fixed by the repository.
\<close>

record numpy =
  lib_exp :: "f64 \<Rightarrow> f64"
  lib_log :: "f64 \<Rightarrow> f64"
  lib_dot :: "f64 list \<Rightarrow> f64 list \<Rightarrow> f64"
  lib_sum :: "f64 list \<Rightarrow> f64"

text \<open>
  The reference library: \<open>exp\<close> and \<open>log\<close> correctly rounded, with the values of numpy at
  the infinities, at 0 and below 0; sums accumulated from left to right, starting from 0.
\<close>

fun exp_rn :: "f64 \<Rightarrow> f64" where
  "exp_rn (Fin x) = rnd (exp x)"
| "exp_rn PInf = PInf"
| "exp_rn NInf = Fin 0"
| "exp_rn NaN = NaN"

fun log_rn :: "f64 \<Rightarrow> f64" where
  "log_rn (Fin x) = (if 0 < x then rnd (ln x) else if x = 0 then NInf else NaN)"
| "log_rn PInf = PInf"
| "log_rn NInf = NaN"
| "log_rn NaN = NaN"

definition dot_seq :: "f64 list \<Rightarrow> f64 list \<Rightarrow> f64" where
  "dot_seq xs ys = foldl (\<lambda>acc (x, y). fadd acc (fmul x y)) (Fin 0) (zip xs ys)"

definition sum_seq :: "f64 list \<Rightarrow> f64" where
  "sum_seq xs = foldl fadd (Fin 0) xs"

definition reference :: numpy where
  "reference = \<lparr>lib_exp = exp_rn, lib_log = log_rn, lib_dot = dot_seq, lib_sum = sum_seq\<rparr>"

subsection \<open>The notebook on binary64\<close>

text \<open>
  The functions and the training cell of the \<^emph>\<open>Logistic regression\<close> notebook once more,
  line by line as above, with the binary64 operations in the place of the exact ones.
  \<^verbatim>\<open>np.zeros((n, 1))\<close> and \<^verbatim>\<open>np.dot\<close>:
\<close>

definition zeros_f64 :: "nat \<Rightarrow> nat \<Rightarrow> f64 ndarray" where
  "zeros_f64 r c = tabulate2 r c (\<lambda>i j. Fin 0)"

definition dot_f64 :: "numpy \<Rightarrow> f64 ndarray \<Rightarrow> f64 ndarray \<Rightarrow> error + f64 ndarray" where
  "dot_f64 L A B =
     (if shape1 A \<noteq> shape0 B then Inl ValueError
      else Inr (tabulate2 (shape0 A) (shape1 B)
                  (\<lambda>i j. lib_dot L (map (\<lambda>k. item A i k) [0..<shape1 A])
                                    (map (\<lambda>k. item B k j) [0..<shape1 A]))))"

text \<open>\<^verbatim>\<open>def sigmoid(z): return 1 / (1 + np.exp(-z))\<close> and \<^verbatim>\<open>predict\<close>.\<close>

definition sigmoid1_f64 :: "numpy \<Rightarrow> f64 \<Rightarrow> f64" where
  "sigmoid1_f64 L z = fdiv (Fin 1) (fadd (Fin 1) (lib_exp L (fneg z)))"

definition sigmoid_f64 :: "numpy \<Rightarrow> f64 ndarray \<Rightarrow> f64 ndarray" where
  "sigmoid_f64 L Z = map_nd (sigmoid1_f64 L) Z"

definition predict_f64 ::
  "numpy \<Rightarrow> f64 ndarray \<Rightarrow> f64 ndarray \<Rightarrow> f64 \<Rightarrow> error + f64 ndarray" where
  "predict_f64 L W X b =
     (case dot_f64 L (transpose_nd W) X of
        Inl e \<Rightarrow> Inl e
      | Inr WX \<Rightarrow> Inr (sigmoid_f64 L (map_nd (\<lambda>z. fadd z b) WX)))"

text \<open>
  \<^verbatim>\<open>cost\<close>, \<^verbatim>\<open>dw\<close> and \<^verbatim>\<open>db\<close>. \<^verbatim>\<open>1 / m\<close> is a division of Python integers: it raises
  \<^verbatim>\<open>ZeroDivisionError\<close> at \<open>m = 0\<close> and is the float nearest to the quotient otherwise.
  \<^verbatim>\<open>np.log\<close> raises nothing.
\<close>

definition loss1_f64 :: "numpy \<Rightarrow> f64 \<Rightarrow> f64 \<Rightarrow> f64" where
  "loss1_f64 L y a =
     fsub (fmul (fneg y) (lib_log L a)) (fmul (fsub (Fin 1) y) (lib_log L (fsub (Fin 1) a)))"

definition cost_f64 :: "numpy \<Rightarrow> f64 ndarray \<Rightarrow> f64 ndarray \<Rightarrow> error + f64 list" where
  "cost_f64 L Y A =
     (let m = shape1 Y in
      case broadcast2 (loss1_f64 L) Y A of
        Inl e \<Rightarrow> Inl e
      | Inr loss \<Rightarrow>
         if m = 0 then Inl ZeroDivisionError
         else Inr (map (\<lambda>r. fmul (rnd (1 / real m)) (lib_sum L r)) (rows loss)))"

definition dw_f64 ::
  "numpy \<Rightarrow> f64 ndarray \<Rightarrow> f64 ndarray \<Rightarrow> f64 ndarray \<Rightarrow> error + f64 ndarray" where
  "dw_f64 L X A Y =
     (let m = shape1 Y in
      if m = 0 then Inl ZeroDivisionError
      else
        case broadcast2 fsub A Y of
          Inl e \<Rightarrow> Inl e
        | Inr D \<Rightarrow>
           (case dot_f64 L X (transpose_nd D) of
              Inl e \<Rightarrow> Inl e
            | Inr P \<Rightarrow> Inr (map_nd (fmul (rnd (1 / real m))) P)))"

definition db_f64 :: "numpy \<Rightarrow> f64 ndarray \<Rightarrow> f64 ndarray \<Rightarrow> error + f64 list" where
  "db_f64 L A Y =
     (let m = shape1 Y in
      if m = 0 then Inl ZeroDivisionError
      else
        case broadcast2 fsub A Y of
          Inl e \<Rightarrow> Inl e
        | Inr D \<Rightarrow> Inr (map (\<lambda>r. fmul (rnd (1 / real m)) (lib_sum L r)) (rows D)))"

text \<open>The training cell: the label column, the variables, the loop body, the loop.\<close>

definition reshape_column_f64 :: "f64 list \<Rightarrow> f64 ndarray" where
  "reshape_column_f64 ys = \<lparr>shape0 = length ys, shape1 = 1, rows = map (\<lambda>y. [y]) ys\<rparr>"

record train_state_f64 =
  f64_W :: "f64 ndarray"
  f64_b :: f64
  f64_costs :: "f64 list list"

definition gd_step_f64 ::
  "numpy \<Rightarrow> f64 \<Rightarrow> f64 ndarray \<Rightarrow> f64 ndarray \<Rightarrow> nat \<Rightarrow> train_state_f64 \<Rightarrow>
   train_state_f64 \<times> error option" where
  "gd_step_f64 L learning_rate X_train y_train i s =
     (case predict_f64 L (f64_W s) X_train (f64_b s) of
        Inl e \<Rightarrow> (s, Some e)
      | Inr A \<Rightarrow>
     (case cost_f64 L (transpose_nd y_train) A of
        Inl e \<Rightarrow> (s, Some e)
      | Inr J \<Rightarrow>
     (let s1 = (if i mod 100 = 0 then s\<lparr>f64_costs := f64_costs s @ [J]\<rparr> else s) in
      case dw_f64 L X_train A (transpose_nd y_train) of
        Inl e \<Rightarrow> (s1, Some e)
      | Inr dw' \<Rightarrow>
     (case db_f64 L A (transpose_nd y_train) of
        Inl e \<Rightarrow> (s1, Some e)
      | Inr db' \<Rightarrow>
     (case broadcast2 fsub (f64_W s1) (map_nd (fmul learning_rate) dw') of
        Inl e \<Rightarrow> (s1, Some e)
      | Inr W' \<Rightarrow>
     (case db' of
        [d] \<Rightarrow> (s1\<lparr>f64_W := W', f64_b := fsub (f64_b s1) (fmul learning_rate d)\<rparr>, None)
      | _ \<Rightarrow> (s1, Some ValueError)))))))"

fun gd_loop_f64 ::
  "numpy \<Rightarrow> f64 \<Rightarrow> f64 ndarray \<Rightarrow> f64 ndarray \<Rightarrow> nat list \<Rightarrow> train_state_f64 \<Rightarrow>
   train_state_f64 \<times> error option" where
  "gd_loop_f64 L learning_rate X_train y_train [] s = (s, None)"
| "gd_loop_f64 L learning_rate X_train y_train (i # is) s =
     (case gd_step_f64 L learning_rate X_train y_train i s of
        (s', Some e) \<Rightarrow> (s', Some e)
      | (s', None) \<Rightarrow> gd_loop_f64 L learning_rate X_train y_train is s')"

definition train_f64 ::
  "numpy \<Rightarrow> nat \<Rightarrow> f64 \<Rightarrow> f64 ndarray \<Rightarrow> f64 list \<Rightarrow> train_state_f64 \<times> error option" where
  "train_f64 L iterations learning_rate X_train labels_y =
     gd_loop_f64 L learning_rate X_train (reshape_column_f64 labels_y) [0..<iterations]
       \<lparr>f64_W = zeros_f64 (shape0 X_train) 1, f64_b = Fin 0, f64_costs = []\<rparr>"

text \<open>
  The gradient that the first iteration of the training cell computes, at the zero
  weights and the zero bias.
\<close>

definition initial_gradient ::
  "numpy \<Rightarrow> f64 ndarray \<Rightarrow> f64 list \<Rightarrow> error + f64 ndarray \<times> f64 list" where
  "initial_gradient L X_train labels_y =
     (let Y = transpose_nd (reshape_column_f64 labels_y) in
      case predict_f64 L (zeros_f64 (shape0 X_train) 1) X_train (Fin 0) of
        Inl e \<Rightarrow> Inl e
      | Inr A \<Rightarrow>
         (case dw_f64 L X_train A Y of
            Inl e \<Rightarrow> Inl e
          | Inr G \<Rightarrow> (case db_f64 L A Y of Inl e \<Rightarrow> Inl e | Inr d \<Rightarrow> Inr (G, d))))"

text \<open>A large float64, \<open>2\<^sup>1\<^sup>0\<^sup>2\<^sup>3\<close> (about \<open>8.99e307\<close>).\<close>

definition big :: real where
  "big = 2 ^ 1023"

subsection \<open>Facts about arrays\<close>

lemma shape_tabulate2 [simp]:
  "shape0 (tabulate2 r c f) = r" "shape1 (tabulate2 r c f) = c"
  by (simp_all add: tabulate2_def)

lemma item_tabulate2 [simp]: "i < r \<Longrightarrow> j < c \<Longrightarrow> item (tabulate2 r c f) i j = f i j"
  by (simp add: tabulate2_def item_def)

lemma is_ndarray_tabulate2 [simp]: "is_ndarray (tabulate2 r c f)"
  by (simp add: is_ndarray_def tabulate2_def list_all_iff)

lemma tabulate2_cong:
  "(\<And>i j. i < r \<Longrightarrow> j < c \<Longrightarrow> f i j = g i j) \<Longrightarrow> tabulate2 r c f = tabulate2 r c g"
  by (simp add: tabulate2_def)

lemma map_nd_tabulate2 [simp]: "map_nd h (tabulate2 r c f) = tabulate2 r c (\<lambda>i j. h (f i j))"
  by (simp add: map_nd_def tabulate2_def comp_def)

lemma predict_eq:
  assumes "shape0 W = shape0 X"
  shows "predict W X b =
         Inr (tabulate2 (shape1 W) (shape1 X)
               (\<lambda>i j. sigmoid1 ((\<Sum>k\<leftarrow>[0..<shape0 X]. item W k i * item X k j) + b)))"
proof -
  have inner: "(\<Sum>k\<leftarrow>[0..<shape0 X]. item (transpose_nd W) i k * item X k j) =
        (\<Sum>k\<leftarrow>[0..<shape0 X]. item W k i * item X k j)" if "i < shape1 W" for i j
    using that assms
    by (intro arg_cong [where f = sum_list] map_cong) (simp_all add: transpose_nd_def)
  have "predict W X b =
        Inr (tabulate2 (shape1 W) (shape1 X)
              (\<lambda>i j. sigmoid1 ((\<Sum>k\<leftarrow>[0..<shape0 X]. item (transpose_nd W) i k * item X k j) + b)))"
    using assms by (simp add: predict_def dot_def sigmoid_def transpose_nd_def)
  also have "tabulate2 (shape1 W) (shape1 X)
              (\<lambda>i j. sigmoid1 ((\<Sum>k\<leftarrow>[0..<shape0 X]. item (transpose_nd W) i k * item X k j) + b)) =
             tabulate2 (shape1 W) (shape1 X)
              (\<lambda>i j. sigmoid1 ((\<Sum>k\<leftarrow>[0..<shape0 X]. item W k i * item X k j) + b))"
    by (rule tabulate2_cong) (simp add: inner)
  finally show ?thesis .
qed

subsection \<open>Facts about the cost and the gradients\<close>

lemma broadcast_dim_same [simp]: "broadcast_dim a a = Inr a"
  by (simp add: broadcast_dim_def)

lemma broadcast2_row:
  assumes "shape0 A = 1" "shape1 A = m" "shape0 B = 1" "shape1 B = m"
  shows "broadcast2 f A B = Inr (tabulate2 1 m (\<lambda>i j. f (item A 0 j) (item B 0 j)))"
proof -
  have "broadcast2 f A B =
        Inr (tabulate2 1 m
          (\<lambda>i j. f (item A (if shape0 A = 1 then 0 else i) (if shape1 A = 1 then 0 else j))
                   (item B (if shape0 B = 1 then 0 else i) (if shape1 B = 1 then 0 else j))))"
    using assms by (simp add: broadcast2_def)
  also have "tabulate2 1 m
          (\<lambda>i j. f (item A (if shape0 A = 1 then 0 else i) (if shape1 A = 1 then 0 else j))
                   (item B (if shape0 B = 1 then 0 else i) (if shape1 B = 1 then 0 else j))) =
        tabulate2 1 m (\<lambda>i j. f (item A 0 j) (item B 0 j))"
    using assms by (intro tabulate2_cong) auto
  finally show ?thesis .
qed

lemma rows_tabulate2_one: "rows (tabulate2 (Suc 0) c f) = [map (f 0) [0..<c]]"
  by (simp add: tabulate2_def)

lemma dw_eq:
  assumes "shape X = (n, m)" "shape A = (1, m)" "shape Y = (1, m)" "0 < m"
  shows "dw X A Y = Inr (tabulate2 n 1
           (\<lambda>i j. (1 / real m) * (\<Sum>k = 0..<m. item X i k * (item A 0 k - item Y 0 k))))"
proof -
  from assms have sh: "shape0 X = n" "shape1 X = m" "shape0 A = 1" "shape1 A = m"
    "shape0 Y = 1" "shape1 Y = m"
    by (simp_all add: shape_def)
  let ?D = "tabulate2 1 m (\<lambda>i j. item A 0 j - item Y 0 j)"
  have D: "broadcast2 (\<lambda>a y. a - y) A Y = Inr ?D"
    using sh by (rule_tac broadcast2_row) simp_all
  have inner: "(\<Sum>k\<leftarrow>[0..<m]. item X i k * item (transpose_nd ?D) k j) =
        (\<Sum>k = 0..<m. item X i k * (item A 0 k - item Y 0 k))" if "j < 1" for i j
  proof -
    have "(\<Sum>k\<leftarrow>[0..<m]. item X i k * item (transpose_nd ?D) k j) =
        (\<Sum>k\<leftarrow>[0..<m]. item X i k * (item A 0 k - item Y 0 k))"
      using that
      by (intro arg_cong [where f = sum_list] map_cong) (simp_all add: transpose_nd_def)
    then show ?thesis by (simp add: interv_sum_list_conv_sum_set_nat)
  qed
  have "dw X A Y = Inr (tabulate2 n 1
           (\<lambda>i j. (1 / real m) * (\<Sum>k\<leftarrow>[0..<m]. item X i k * item (transpose_nd ?D) k j)))"
    using sh \<open>0 < m\<close> by (simp add: dw_def D dot_def transpose_nd_def)
  also have "tabulate2 n 1
           (\<lambda>i j. (1 / real m) * (\<Sum>k\<leftarrow>[0..<m]. item X i k * item (transpose_nd ?D) k j)) =
         tabulate2 n 1
           (\<lambda>i j. (1 / real m) * (\<Sum>k = 0..<m. item X i k * (item A 0 k - item Y 0 k)))"
    by (rule tabulate2_cong) (simp only: inner)
  finally show ?thesis .
qed

lemma db_eq:
  assumes "shape A = (1, m)" "shape Y = (1, m)" "0 < m"
  shows "db A Y = Inr [(1 / real m) * (\<Sum>k = 0..<m. item A 0 k - item Y 0 k)]"
proof -
  from assms have sh: "shape0 A = 1" "shape1 A = m" "shape0 Y = 1" "shape1 Y = m"
    by (simp_all add: shape_def)
  have D: "broadcast2 (\<lambda>a y. a - y) A Y = Inr (tabulate2 1 m (\<lambda>i j. item A 0 j - item Y 0 j))"
    using sh by (rule_tac broadcast2_row) simp_all
  show ?thesis
    using sh \<open>0 < m\<close>
    by (simp add: db_def D rows_tabulate2_one interv_sum_list_conv_sum_set_nat)
qed




lemma sigmoid1_zero: "sigmoid1 0 = 1 / 2"
  by (simp add: sigmoid1_def)

lemma predict_zeros:
  assumes "shape0 X = n"
  shows "predict (zeros n 1) X 0 = Inr (tabulate2 1 (shape1 X) (\<lambda>i j. 1 / 2))"
proof -
  have zero: "(\<Sum>k\<leftarrow>[0..<n]. item (zeros n 1) k i * item X k j) = 0" if "i < 1" for i j
  proof -
    have "(\<Sum>k\<leftarrow>[0..<n]. item (zeros n 1) k i * item X k j) = (\<Sum>k\<leftarrow>[0..<n]. 0)"
      using that by (intro arg_cong [where f = sum_list] map_cong) (simp_all add: zeros_def)
    then show ?thesis by simp
  qed
  have "predict (zeros n 1) X 0 =
        Inr (tabulate2 1 (shape1 X)
              (\<lambda>i j. sigmoid1 ((\<Sum>k\<leftarrow>[0..<n]. item (zeros n 1) k i * item X k j) + 0)))"
    using predict_eq [of "zeros n 1" X 0] assms by (simp add: zeros_def)
  also have "tabulate2 1 (shape1 X)
              (\<lambda>i j. sigmoid1 ((\<Sum>k\<leftarrow>[0..<n]. item (zeros n 1) k i * item X k j) + 0)) =
             tabulate2 1 (shape1 X) (\<lambda>i j. 1 / 2)"
    by (rule tabulate2_cong) (simp only: zero add_0_right sigmoid1_zero)
  finally show ?thesis .
qed

lemma loss1_half: "loss1 y (1 / 2) = Some (ln 2)"
proof -
  have "ln (1 / 2 :: real) = - ln 2"
    by (simp add: ln_div)
  then show ?thesis
    by (simp add: loss1_def np_log_def algebra_simps)
qed

lemma sum_opt_replicate: "sum_opt (replicate m (Some c)) = Some (real m * c)"
  by (induction m) (simp_all add: algebra_simps)

lemma cost_half:
  assumes "shape Y = (1, m)" "0 < m"
  shows "cost Y (tabulate2 1 m (\<lambda>i j. 1 / 2)) = Inr [Some (ln 2)]"
proof -
  from assms have sh: "shape0 Y = 1" "shape1 Y = m"
    by (simp_all add: shape_def)
  let ?A = "tabulate2 1 m (\<lambda>i j. 1 / 2 :: real)"
  have "broadcast2 loss1 Y ?A = Inr (tabulate2 1 m (\<lambda>i j. loss1 (item Y 0 j) (item ?A 0 j)))"
    using sh by (rule_tac broadcast2_row) simp_all
  also have "tabulate2 1 m (\<lambda>i j. loss1 (item Y 0 j) (item ?A 0 j)) =
             tabulate2 1 m (\<lambda>i j. Some (ln 2))"
    by (rule tabulate2_cong) (simp add: loss1_half)
  finally have L: "broadcast2 loss1 Y ?A = Inr (tabulate2 1 m (\<lambda>i j. Some (ln 2)))" .
  have "map (\<lambda>j. Some (ln 2 :: real)) [0..<m] = replicate m (Some (ln 2))"
    by (simp add: map_replicate_const)
  then show ?thesis
    unfolding cost_def Let_def L
    using sh \<open>0 < m\<close> by (simp add: rows_tabulate2_one sum_opt_replicate)
qed

subsection \<open>Facts about binarization and the training loop\<close>

lemma fold_update_map:
  "m \<le> length r \<Longrightarrow>
   fold (\<lambda>i r. r[i := f (r ! i)]) [0..<m] r = map f (take m r) @ drop m r"
proof (induction m)
  case 0
  then show ?case by simp
next
  case (Suc m)
  then have m: "m < length r" by simp
  have "fold (\<lambda>i r. r[i := f (r ! i)]) [0..<Suc m] r =
        (map f (take m r) @ drop m r)[m := f ((map f (take m r) @ drop m r) ! m)]"
    using Suc by simp
  also have "(map f (take m r) @ drop m r) ! m = r ! m"
    using m by (simp add: nth_append)
  also have "(map f (take m r) @ drop m r)[m := f (r ! m)] =
             map f (take m r) @ (drop m r)[0 := f (r ! m)]"
    using m by (simp add: list_update_append)
  also have "(drop m r)[0 := f (r ! m)] = f (r ! m) # drop (Suc m) r"
    using m by (simp add: Cons_nth_drop_Suc [symmetric])
  also have "map f (take m r) @ f (r ! m) # drop (Suc m) r =
             map f (take (Suc m) r) @ drop (Suc m) r"
    using m by (simp add: take_Suc_conv_app_nth)
  finally show ?case .
qed

lemma binarize_loop_eq:
  assumes "0 < shape0 A" "\<forall>i\<in>set is. i < shape1 A" "0 < length (rows A)"
  shows "binarize_loop is A =
         Inr (A\<lparr>rows := (rows A)[0 := fold (\<lambda>i r. r[i := (if r ! i > 0.5 then 1 else 0)]) is (rows A ! 0)]\<rparr>)"
  using assms
proof (induction "is" arbitrary: A)
  case Nil
  then show ?case by simp
next
  case (Cons i "is")
  let ?A' = "A\<lparr>rows := (rows A)[0 := (rows A ! 0)[i := (if rows A ! 0 ! i > 0.5 then 1 else 0)]]\<rparr>"
  have "binarize_loop (i # is) A = binarize_loop is ?A'"
    using Cons.prems by (simp add: getitem_def setitem_def item_def)
  also have "\<dots> = Inr (?A'\<lparr>rows := (rows ?A')[0 := fold (\<lambda>i r. r[i := (if r ! i > 0.5 then 1 else 0)]) is (rows ?A' ! 0)]\<rparr>)"
    using Cons.prems by (intro Cons.IH) simp_all
  also have "\<dots> = Inr (A\<lparr>rows := (rows A)[0 := fold (\<lambda>i r. r[i := (if r ! i > 0.5 then 1 else 0)]) (i # is) (rows A ! 0)]\<rparr>)"
    using Cons.prems by simp
  finally show ?case .
qed

lemma binarize_eq:
  assumes "is_ndarray A" "0 < shape0 A"
  shows "binarize A = Inr (A\<lparr>rows := (rows A)[0 := map (\<lambda>a. if a > 0.5 then 1 else 0) (rows A ! 0)]\<rparr>)"
proof -
  from assms have len: "length (rows A) = shape0 A" "length (rows A ! 0) = shape1 A"
    by (auto simp: is_ndarray_def list_all_length)
  have "binarize A =
        Inr (A\<lparr>rows := (rows A)[0 := fold (\<lambda>i r. r[i := (if r ! i > 0.5 then 1 else 0)]) [0..<shape1 A] (rows A ! 0)]\<rparr>)"
    unfolding binarize_def using assms len by (intro binarize_loop_eq) simp_all
  also have "fold (\<lambda>i r. r[i := (if r ! i > 0.5 then 1 else 0)]) [0..<shape1 A] (rows A ! 0) =
             map (\<lambda>a. if a > 0.5 then 1 else 0) (rows A ! 0)"
    using fold_update_map [of "shape1 A" "rows A ! 0" "\<lambda>a. if a > 0.5 then 1 else 0"] len
    by simp
  finally show ?thesis .
qed

lemma broadcast2_form:
  "broadcast2 f A B = Inr D \<Longrightarrow> shape0 A = 1 \<Longrightarrow> shape0 B = 1 \<Longrightarrow>
   \<exists>c g. D = tabulate2 1 c g"
  by (auto simp: broadcast2_def broadcast_dim_def split: sum.splits if_splits)

lemma sigmoid1_gt_half: "1 / 2 < sigmoid1 z \<longleftrightarrow> 0 < z"
proof -
  have "1 / 2 < sigmoid1 z \<longleftrightarrow> 1 + exp (- z) < 2"
    by (simp add: sigmoid1_def field_simps add_pos_pos)
  also have "\<dots> \<longleftrightarrow> 0 < z"
    by simp
  finally show ?thesis .
qed

lemma upt_small: "[0..<1] = [0]" "[0..<2] = [0, 1]"
  by (simp_all add: upt_rec numeral_2_eq_2)

subsection \<open>Facts about the preparation of the dataset\<close>

lemma append_rows_eq:
  "append_rows filenames df =
   df @ map (\<lambda>(i, f). (i, f, 0)) (enumerate (length df) filenames)"
  by (induction filenames arbitrary: df) simp_all

lemma new_rows:
  fixes filenames :: "string list"
  defines "df \<equiv> map (\<lambda>(i, f). (i, f, 0 :: int)) (enumerate 0 filenames)"
  shows "map file_name df = filenames"
    and "map is_guitar df = replicate (length filenames) 0"
    and "map fst df = [0..<length filenames]"
proof -
  have "map file_name df = map snd (enumerate 0 filenames)"
    by (simp add: df_def file_name_def case_prod_unfold comp_def)
  then show "map file_name df = filenames"
    by (simp add: enumerate_eq_zip)
  have "map is_guitar df = map (\<lambda>x. 0) (enumerate 0 filenames)"
    by (simp add: df_def is_guitar_def case_prod_unfold comp_def)
  then show "map is_guitar df = replicate (length filenames) 0"
    by (simp add: map_replicate_const)
  have "map fst df = map fst (enumerate 0 filenames)"
    by (simp add: df_def case_prod_unfold comp_def)
  then show "map fst df = [0..<length filenames]"
    by (simp add: enumerate_eq_zip)
qed

lemma prepare_labels_csv:
  "labels_csv (fst (prepare parse rd d)) =
   (case label_images d of Inl e \<Rightarrow> labels_csv d | Inr (d1, out) \<Rightarrow> labels_csv d1)"
  by (simp add: prepare_def split: sum.splits prod.splits)

lemma label_images_present:
  "labels_csv d = Some df \<Longrightarrow> label_images d = Inr (d, ''labels.csv exists. Skipping'')"
  by (simp add: label_images_def)

lemma prepare_labels_csv_present:
  "labels_csv d = Some df \<Longrightarrow> labels_csv (fst (prepare parse rd d)) = Some df"
  by (simp add: prepare_labels_csv label_images_present)

lemma prepare_labels_csv_cases:
  "labels_csv (fst (prepare parse rd d)) =
   (case labels_csv d of
      Some df \<Rightarrow> Some df
    | None \<Rightarrow> (case listing d of Inl e \<Rightarrow> None | Inr filenames \<Rightarrow> Some (append_rows filenames [])))"
  by (simp add: prepare_labels_csv label_images_def split: option.splits sum.splits)

lemma prepare_listing: "listing (fst (prepare parse rd d)) = listing d"
  by (auto simp: prepare_def label_images_def split: sum.splits prod.splits option.splits)

lemma prepare_unlistable:
  "labels_csv d = None \<Longrightarrow> listing d = Inl e \<Longrightarrow> prepare parse rd d = (d, Some e)"
  by (simp add: prepare_def label_images_def)

lemma load_images_Inr:
  "load_images rd filenames acc = Inr images \<longleftrightarrow>
   (\<exists>imgs. map (\<lambda>f. rd (image_path f)) filenames = map Inr imgs \<and> images = rev imgs @ acc)"
proof (induction filenames arbitrary: acc)
  case Nil
  then show ?case by auto
next
  case (Cons f fs)
  show ?case
  proof (cases "rd (image_path f)")
    case (Inl e)
    then show ?thesis by (auto simp: map_eq_Cons_conv)
  next
    case (Inr img)
    show ?thesis
    proof
      assume "load_images rd (f # fs) acc = Inr images"
      with Inr have "load_images rd fs (img # acc) = Inr images"
        by simp
      then obtain imgs where "map (\<lambda>f. rd (image_path f)) fs = map Inr imgs"
        and "images = rev imgs @ img # acc"
        using Cons.IH by blast
      with Inr have "map (\<lambda>f. rd (image_path f)) (f # fs) = map Inr (img # imgs) \<and>
                     images = rev (img # imgs) @ acc"
        by simp
      then show "\<exists>imgs. map (\<lambda>f. rd (image_path f)) (f # fs) = map Inr imgs \<and>
                       images = rev imgs @ acc"
        by blast
    next
      assume "\<exists>imgs. map (\<lambda>f. rd (image_path f)) (f # fs) = map Inr imgs \<and>
                     images = rev imgs @ acc"
      then obtain imgs where m: "map (\<lambda>f. rd (image_path f)) (f # fs) = map Inr imgs"
        and i: "images = rev imgs @ acc"
        by blast
      from m Inr obtain imgs' where imgs: "imgs = img # imgs'"
        and m': "map (\<lambda>f. rd (image_path f)) fs = map Inr imgs'"
        by (cases imgs) auto
      from i imgs have "images = rev imgs' @ img # acc"
        by simp
      with m' have "load_images rd fs (img # acc) = Inr images"
        using Cons.IH by blast
      with Inr show "load_images rd (f # fs) acc = Inr images"
        by simp
    qed
  qed
qed

lemma load_labels_eq: "load_labels gs acc = rev (map real_of_int gs) @ acc"
  by (induction gs arbitrary: acc) simp_all

lemma load_dataset_Inr:
  "load_dataset rd data = Inr (images, labels) \<longleftrightarrow>
   map Inr images = rev (map (\<lambda>r. rd (image_path (file_name r))) data) \<and>
   labels = rev (map (\<lambda>r. real_of_int (is_guitar r)) data)"
proof -
  have "load_dataset rd data = Inr (images, labels) \<longleftrightarrow>
        load_images rd (map file_name data) [] = Inr images \<and>
        labels = load_labels (map is_guitar data) []"
    by (auto simp: load_dataset_def split: sum.splits)
  also have "load_images rd (map file_name data) [] = Inr images \<longleftrightarrow>
        (\<exists>imgs. map (\<lambda>r. rd (image_path (file_name r))) data = map Inr imgs \<and> images = rev imgs)"
    by (simp add: load_images_Inr comp_def)
  also have "\<dots> \<longleftrightarrow> map Inr images = rev (map (\<lambda>r. rd (image_path (file_name r))) data)"
  proof
    assume "\<exists>imgs. map (\<lambda>r. rd (image_path (file_name r))) data = map Inr imgs \<and> images = rev imgs"
    then obtain imgs where "map (\<lambda>r. rd (image_path (file_name r))) data = map Inr imgs"
      and "images = rev imgs"
      by blast
    then show "map Inr images = rev (map (\<lambda>r. rd (image_path (file_name r))) data)"
      by (simp add: rev_map [symmetric])
  next
    assume "map Inr images = rev (map (\<lambda>r. rd (image_path (file_name r))) data)"
    then have "rev (map Inr images) = rev (rev (map (\<lambda>r. rd (image_path (file_name r))) data))"
      by simp
    then have "map (\<lambda>r. rd (image_path (file_name r))) data = map Inr (rev images)"
      by (simp add: rev_map)
    then show "\<exists>imgs. map (\<lambda>r. rd (image_path (file_name r))) data = map Inr imgs \<and> images = rev imgs"
      by (intro exI [of _ "rev images"]) simp
  qed
  finally show ?thesis
    by (simp add: load_labels_eq comp_def)
qed

lemma training_examples_count_90: "training_examples_count 90 = 62"
  by (simp add: training_examples_count_def round53_def mantissa_0_7_def bit_length.simps Let_def)

lemma training_examples_count_10: "training_examples_count 10 = 7"
  by (simp add: training_examples_count_def round53_def mantissa_0_7_def bit_length.simps Let_def)

lemma mantissa_0_7_nearest: "\<bar>real mantissa_0_7 / 2 ^ 53 - 7 / 10\<bar> < 1 / 2 ^ 54"
  by (simp add: mantissa_0_7_def abs_if field_simps)

lemma split_dataset_concat:
  "training_set_x (split_dataset images labels) @ test_set_x (split_dataset images labels) = images"
  "training_set_y (split_dataset images labels) @ test_set_y (split_dataset images labels) = labels"
  by (simp_all add: split_dataset_def Let_def)

lemma split_dataset_first:
  "training_set_x (split_dataset images labels) =
     take (training_examples_count (length images)) images"
  "test_set_x (split_dataset images labels) =
     drop (training_examples_count (length images)) images"
  by (simp_all add: split_dataset_def Let_def)

subsection \<open>A run of the training cell\<close>

lemma train_one_step_example:
  "train 1 2 \<lparr>shape0 = 1, shape1 = 2, rows = [[1, - 1]]\<rparr> [1, 0] =
     (\<lparr>st_W = \<lparr>shape0 = 1, shape1 = 1, rows = [[1]]\<rparr>, st_b = 0, st_costs = [[Some (ln 2)]]\<rparr>,
      None)"
proof -
  let ?X = "\<lparr>shape0 = 1, shape1 = 2, rows = [[1::real, - 1]]\<rparr>"
  let ?y = "reshape_column [1, 0]"
  let ?Y = "transpose_nd ?y"
  let ?A = "tabulate2 1 2 (\<lambda>i j. 1 / 2 :: real)"
  let ?s = "\<lparr>st_W = zeros 1 1, st_b = 0, st_costs = []\<rparr>"
  have Y: "shape ?Y = (1, 2)"
    by (simp add: shape_def transpose_nd_def reshape_column_def)
  have X: "shape ?X = (1, 2)" and A': "shape ?A = (1, 2)"
    by (simp_all add: shape_def)
  have A: "predict (st_W ?s) ?X (st_b ?s) = Inr ?A"
    using predict_zeros [of ?X 1] by simp
  have J: "cost ?Y ?A = Inr [Some (ln 2)]"
    using Y by (rule cost_half) simp
  have up: "{0..<2::nat} = {0, 1}"
    by auto
  have G: "dw ?X ?A ?Y = Inr (tabulate2 1 1 (\<lambda>i j. - 1 / 2))"
  proof -
    have "dw ?X ?A ?Y = Inr (tabulate2 1 1
        (\<lambda>i j. (1 / real 2) * (\<Sum>k = 0..<2. item ?X i k * (item ?A 0 k - item ?Y 0 k))))"
      using X A' Y by (rule dw_eq) simp
    also have "tabulate2 1 1
        (\<lambda>i j. (1 / real 2) * (\<Sum>k = 0..<2. item ?X i k * (item ?A 0 k - item ?Y 0 k))) =
        tabulate2 1 1 (\<lambda>i j. - 1 / 2)"
      by (rule tabulate2_cong)
         (simp add: up item_def transpose_nd_def reshape_column_def tabulate2_def upt_small)
    finally show ?thesis .
  qed
  have d: "db ?A ?Y = Inr [0]"
  proof -
    have "db ?A ?Y = Inr [(1 / real 2) * (\<Sum>k = 0..<2. item ?A 0 k - item ?Y 0 k)]"
      using A' Y by (rule db_eq) simp
    then show ?thesis
      by (simp add: up item_def transpose_nd_def reshape_column_def tabulate2_def upt_small)
  qed
  have W: "broadcast2 (\<lambda>w g. w - g) (st_W (?s\<lparr>st_costs := st_costs ?s @ [[Some (ln 2)]]\<rparr>))
             (map_nd (\<lambda>g. 2 * g) (tabulate2 1 1 (\<lambda>i j. - 1 / 2))) =
           Inr \<lparr>shape0 = 1, shape1 = 1, rows = [[1]]\<rparr>"
    by (simp add: broadcast2_def broadcast_dim_def zeros_def tabulate2_def item_def map_nd_def)
  have "gd_step 2 ?X ?y 0 ?s =
        (\<lparr>st_W = \<lparr>shape0 = 1, shape1 = 1, rows = [[1]]\<rparr>, st_b = 0, st_costs = [[Some (ln 2)]]\<rparr>, None)"
    by (simp only: gd_step_def A sum.case J Let_def G d W list.case mod_0 simp_thms if_True) simp
  then show ?thesis
    by (simp add: train_def upt_small)
qed

subsection \<open>Facts about rounding\<close>

lemma rne_of_int [simp]: "rne (of_int n) = n"
  by (simp add: rne_def)

lemma rne_cases: "rne t = \<lfloor>t\<rfloor> \<or> (rne t = \<lfloor>t\<rfloor> + 1 \<and> of_int \<lfloor>t\<rfloor> < t)"
  by (auto simp: rne_def Let_def)

lemma rne_ge: "of_int N \<le> t \<Longrightarrow> N \<le> rne t"
proof -
  assume "of_int N \<le> t"
  then have "N \<le> \<lfloor>t\<rfloor>" by (simp add: le_floor_iff)
  with rne_cases [of t] show ?thesis by linarith
qed

lemma rne_le: "t \<le> of_int N \<Longrightarrow> rne t \<le> N"
proof -
  assume t: "t \<le> of_int N"
  then have f: "\<lfloor>t\<rfloor> \<le> N" by (simp add: floor_le_iff)
  from rne_cases [of t] show ?thesis
  proof
    assume "rne t = \<lfloor>t\<rfloor>"
    with f show ?thesis by simp
  next
    assume a: "rne t = \<lfloor>t\<rfloor> + 1 \<and> of_int \<lfloor>t\<rfloor> < t"
    with t have "of_int \<lfloor>t\<rfloor> < (of_int N :: real)" by linarith
    then have "\<lfloor>t\<rfloor> < N" by simp
    with a show ?thesis by simp
  qed
qed

lemma floor_log2_bounds:
  assumes "0 < x"
  shows "2 powi \<lfloor>log 2 x\<rfloor> \<le> x" and "x < 2 powi (\<lfloor>log 2 x\<rfloor> + 1)"
proof -
  have p: "(2::real) powr real_of_int k = 2 powi k" for k
    by (rule powr_real_of_int') simp_all
  have "(\<lfloor>log 2 x\<rfloor> = \<lfloor>log 2 x\<rfloor>) =
        (2 powr real_of_int \<lfloor>log 2 x\<rfloor> \<le> x \<and> x < 2 powr real_of_int (\<lfloor>log 2 x\<rfloor> + 1))"
    using assms by (intro floor_log_eq_powr_iff) simp_all
  then have "2 powi \<lfloor>log 2 x\<rfloor> \<le> x \<and> x < 2 powi (\<lfloor>log 2 x\<rfloor> + 1)"
    unfolding p by blast
  then show "2 powi \<lfloor>log 2 x\<rfloor> \<le> x" and "x < 2 powi (\<lfloor>log 2 x\<rfloor> + 1)"
    by blast+
qed

lemma floor_log2_eq:
  assumes "2 powi k \<le> x" and "x < 2 powi (k + 1)"
  shows "\<lfloor>log 2 x\<rfloor> = k"
proof -
  have "0 < (2::real) powi k" by simp
  with assms have "0 < x" by linarith
  have p: "(2::real) powr real_of_int k = 2 powi k" for k
    by (rule powr_real_of_int') simp_all
  have "(\<lfloor>log 2 x\<rfloor> = k) = (2 powr real_of_int k \<le> x \<and> x < 2 powr real_of_int (k + 1))"
    using \<open>0 < x\<close> by (intro floor_log_eq_powr_iff) simp_all
  then show ?thesis
    unfolding p using assms by blast
qed

lemma floor_log2_le:
  assumes "0 < x" and "x \<le> 2 powi k"
  shows "\<lfloor>log 2 x\<rfloor> \<le> k"
proof (rule ccontr)
  assume "\<not> \<lfloor>log 2 x\<rfloor> \<le> k"
  then have "k + 1 \<le> \<lfloor>log 2 x\<rfloor>" by simp
  then have "(2::real) powi (k + 1) \<le> 2 powi \<lfloor>log 2 x\<rfloor>"
    by (intro power_int_increasing) simp_all
  also have "\<dots> \<le> x" using assms(1) by (rule floor_log2_bounds)
  finally have "(2::real) powi (k + 1) \<le> 2 powi k" using assms(2) by linarith
  moreover have "(2::real) powi k < 2 powi (k + 1)"
    by (intro power_int_strict_increasing) simp_all
  ultimately show False by linarith
qed

lemma floor_log2_less:
  assumes "0 < x" and "x < 2 powi k"
  shows "\<lfloor>log 2 x\<rfloor> < k"
proof (rule ccontr)
  assume "\<not> \<lfloor>log 2 x\<rfloor> < k"
  then have "k \<le> \<lfloor>log 2 x\<rfloor>" by simp
  then have "(2::real) powi k \<le> 2 powi \<lfloor>log 2 x\<rfloor>"
    by (intro power_int_increasing) simp_all
  also have "\<dots> \<le> x" using assms(1) by (rule floor_log2_bounds)
  finally show False using assms(2) by linarith
qed

lemma floor_log2_ge:
  assumes "2 powi k \<le> x"
  shows "k \<le> \<lfloor>log 2 x\<rfloor>"
proof (rule ccontr)
  have "0 < (2::real) powi k" by (simp add: zero_less_power_int)
  with assms have x: "0 < x" by linarith
  assume "\<not> k \<le> \<lfloor>log 2 x\<rfloor>"
  then have "\<lfloor>log 2 x\<rfloor> + 1 \<le> k" by simp
  then have "(2::real) powi (\<lfloor>log 2 x\<rfloor> + 1) \<le> 2 powi k"
    by (intro power_int_increasing) simp_all
  with floor_log2_bounds(2) [OF x] assms show False by linarith
qed

lemma quantum_pos: "0 < quantum x"
  by (simp add: quantum_def zero_less_power_int)

lemma powi_two_quotient:
  "(2::real) powi a / 2 powi b = 2 powi (a - b)"
  by (simp add: power_int_diff)

lemma powi_two_nonneg_int:
  "0 \<le> j \<Longrightarrow> (2::real) powi j = of_int (2 ^ nat j)"
  by (simp add: power_int_def)

lemma quantum_of_pos:
  "0 < x \<Longrightarrow> quantum x = 2 powi (max \<lfloor>log 2 x\<rfloor> (- 1022) - 52)"
  by (simp add: quantum_def)

lemma nearest_nonneg:
  assumes "0 \<le> x"
  shows "0 \<le> nearest x"
proof -
  have "0 \<le> x / quantum x"
    using assms quantum_pos [of x] by simp
  then have "0 \<le> rne (x / quantum x)"
    using rne_ge [of 0 "x / quantum x"] by simp
  then show ?thesis
    using quantum_pos [of x] by (simp add: nearest_def)
qed

lemma nearest_ge_powi:
  assumes "0 < x" and "- 1022 \<le> \<lfloor>log 2 x\<rfloor>"
  shows "2 powi \<lfloor>log 2 x\<rfloor> \<le> nearest x"
proof -
  let ?e = "\<lfloor>log 2 x\<rfloor>"
  have "max ?e (- 1022) = ?e"
    using assms(2) by (rule max_absorb1)
  then have q: "quantum x = 2 powi (?e - 52)"
    using quantum_of_pos [OF assms(1)] by (simp only:)
  have "(2::real) powi ?e / quantum x = 2 powi 52"
    by (simp add: q powi_two_quotient)
  also have "\<dots> = of_int (2 ^ 52)"
    by (simp add: power_int_def)
  finally have "of_int (2 ^ 52) = (2::real) powi ?e / quantum x" by simp
  also have "\<dots> \<le> x / quantum x"
    using floor_log2_bounds(1) [OF assms(1)] quantum_pos [of x]
    by (simp add: divide_right_mono)
  finally have "2 ^ 52 \<le> rne (x / quantum x)"
    by (rule rne_ge)
  then have "(of_int (2 ^ 52) :: real) \<le> of_int (rne (x / quantum x))"
    by (rule of_int_le_iff [THEN iffD2])
  then have "quantum x * of_int (2 ^ 52) \<le> nearest x"
    unfolding nearest_def using quantum_pos [of x] by (intro mult_left_mono) simp_all
  moreover have "quantum x * of_int (2 ^ 52) = 2 powi ?e"
  proof -
    have "quantum x * of_int (2 ^ 52) = 2 powi (?e - 52) * 2 powi 52"
      by (simp add: q power_int_def)
    also have "\<dots> = 2 powi (?e - 52 + 52)"
      by (rule power_int_add [symmetric]) simp
    finally show ?thesis by simp
  qed
  ultimately show ?thesis by simp
qed

lemma nearest_le_powi:
  assumes "0 < x" and "x \<le> 2 powi k" and "- 1074 \<le> k"
  shows "nearest x \<le> 2 powi k"
proof -
  let ?qe = "max \<lfloor>log 2 x\<rfloor> (- 1022) - 52"
  have q: "quantum x = 2 powi ?qe"
    using assms(1) by (simp add: quantum_of_pos)
  have "\<lfloor>log 2 x\<rfloor> \<le> k"
    using assms(1,2) by (rule floor_log2_le)
  with assms(3) have j: "0 \<le> k - ?qe"
    by simp
  have "x / quantum x \<le> 2 powi k / quantum x"
    using assms(2) quantum_pos [of x] by (simp add: divide_right_mono)
  also have "\<dots> = 2 powi (k - ?qe)"
    by (simp only: q powi_two_quotient)
  also have "\<dots> = of_int (2 ^ nat (k - ?qe))"
    using j by (rule powi_two_nonneg_int)
  finally have "rne (x / quantum x) \<le> 2 ^ nat (k - ?qe)"
    by (rule rne_le)
  then have "(of_int (rne (x / quantum x)) :: real) \<le> of_int (2 ^ nat (k - ?qe))"
    by (rule of_int_le_iff [THEN iffD2])
  then have "nearest x \<le> quantum x * of_int (2 ^ nat (k - ?qe))"
    unfolding nearest_def using quantum_pos [of x] by (intro mult_left_mono) simp_all
  also have "of_int (2 ^ nat (k - ?qe)) = (2::real) powi (k - ?qe)"
    using j by (rule powi_two_nonneg_int [symmetric])
  also have "quantum x * 2 powi (k - ?qe) = 2 powi (?qe + (k - ?qe))"
    unfolding q by (rule power_int_add [symmetric]) simp
  finally show ?thesis by simp
qed

lemma rnd_nonneg:
  assumes "0 \<le> x"
  shows "rnd x = PInf \<or> (\<exists>a. rnd x = Fin a \<and> 0 \<le> a)"
proof (cases "x = 0")
  case True
  then show ?thesis by (simp add: rnd_def)
next
  case False
  with assms have "0 < x" by simp
  then show ?thesis
    using nearest_nonneg [OF assms] by (simp add: rnd_def)
qed

lemma rnd_le_powi:
  assumes "0 \<le> x" and "x \<le> 2 powi k" and "- 1074 \<le> k" and "k \<le> 1023"
  shows "\<exists>a. rnd x = Fin a \<and> 0 \<le> a \<and> a \<le> 2 powi k"
proof (cases "x = 0")
  case True
  then show ?thesis by (simp add: rnd_def)
next
  case False
  with assms(1) have x: "0 < x" by simp
  have le: "nearest x \<le> 2 powi k"
    using x assms(2,3) by (rule nearest_le_powi)
  have "(2::real) powi k \<le> 2 powi 1023"
    using assms(4) by (intro power_int_increasing) simp_all
  also have "\<dots> < 2 powi 1024"
    by (intro power_int_strict_increasing) simp_all
  also have "\<dots> = 2 ^ 1024"
    by (simp add: power_int_def)
  finally have "nearest x < 2 ^ 1024"
    using le by linarith
  moreover have "0 \<le> nearest x"
    using assms(1) by (rule nearest_nonneg)
  ultimately have "rnd x = Fin (nearest x)"
    using False by (simp add: rnd_def)
  then show ?thesis
    using le \<open>0 \<le> nearest x\<close> by blast
qed

lemma rnd_ge_one:
  assumes "1 \<le> x"
  shows "rnd x = PInf \<or> (\<exists>a. rnd x = Fin a \<and> 1 \<le> a)"
proof -
  from assms have x: "0 < x" by simp
  have "(2::real) powi 0 \<le> x"
    using assms by simp
  then have e: "0 \<le> \<lfloor>log 2 x\<rfloor>"
    by (rule floor_log2_ge)
  then have "(2::real) powi 0 \<le> 2 powi \<lfloor>log 2 x\<rfloor>"
    by (intro power_int_increasing) simp_all
  also have "\<dots> \<le> nearest x"
  proof -
    from e have "- 1022 \<le> \<lfloor>log 2 x\<rfloor>" by linarith
    with x show ?thesis by (rule nearest_ge_powi)
  qed
  finally have "1 \<le> nearest x"
    by simp
  then show ?thesis
    using x by (simp add: rnd_def)
qed

lemma rnd_overflow:
  assumes "2 ^ 1024 \<le> x"
  shows "rnd x = PInf"
proof -
  have p: "(2::real) ^ 1024 = 2 powi 1024"
    by (simp add: power_int_def)
  have "(0::real) < 2 ^ 1024"
    by simp
  with assms have x: "0 < x" by linarith
  have e: "1024 \<le> \<lfloor>log 2 x\<rfloor>"
    using assms unfolding p by (rule floor_log2_ge)
  then have "(2::real) powi 1024 \<le> 2 powi \<lfloor>log 2 x\<rfloor>"
    by (intro power_int_increasing) simp_all
  also have "\<dots> \<le> nearest x"
  proof -
    from e have "- 1022 \<le> \<lfloor>log 2 x\<rfloor>" by linarith
    with x show ?thesis by (rule nearest_ge_powi)
  qed
  finally have "2 ^ 1024 \<le> \<bar>nearest x\<bar>"
    unfolding p by linarith
  then show ?thesis
    using x by (simp add: rnd_def)
qed

lemma rne_just_above:
  assumes "of_int n \<le> t" and "t < of_int n + 1 / 2"
  shows "rne t = n"
proof -
  have "\<lfloor>t\<rfloor> = n"
    using assms by (intro floor_unique) simp_all
  then show ?thesis
    using assms by (simp add: rne_def)
qed

lemma rnd_dyadic:
  assumes m: "m \<noteq> 0" "\<bar>m\<bar> < 2 ^ 53" and k: "- 1074 \<le> k"
    and r: "\<bar>of_int m * 2 powi k\<bar> < (2::real) ^ 1024"
  shows "rnd (of_int m * 2 powi k) = Fin (of_int m * 2 powi k)"
proof -
  let ?x = "of_int m * 2 powi k :: real"
  let ?qe = "max \<lfloor>log 2 \<bar>?x\<bar>\<rfloor> (- 1022) - 52"
  have pk: "(0::real) < 2 powi k"
    by simp
  have ax: "\<bar>?x\<bar> = of_int \<bar>m\<bar> * 2 powi k"
    using pk by (simp add: abs_mult)
  have "(1::real) \<le> of_int \<bar>m\<bar>"
    using m(1) by (simp flip: of_int_abs add: int_one_le_iff_zero_less)
  then have pos: "0 < \<bar>?x\<bar>"
    unfolding ax using pk by (intro mult_pos_pos) simp_all
  have "(of_int \<bar>m\<bar> :: real) < of_int (2 ^ 53)"
    using m(2) by (rule of_int_less_iff [THEN iffD2])
  then have "\<bar>?x\<bar> < of_int (2 ^ 53) * 2 powi k"
    unfolding ax using pk by (rule mult_strict_right_mono)
  also have "(of_int (2 ^ 53) :: real) = 2 powi 53"
    by (simp add: power_int_def)
  also have "(2::real) powi 53 * 2 powi k = 2 powi (53 + k)"
    by (rule power_int_add [symmetric]) simp
  finally have "\<lfloor>log 2 \<bar>?x\<bar>\<rfloor> < 53 + k"
    using pos by (intro floor_log2_less)
  with k have j: "0 \<le> k - ?qe"
    by simp
  have q: "quantum ?x = 2 powi ?qe"
    by (simp only: quantum_def)
  have "?x / quantum ?x = of_int m * (2 powi k / 2 powi ?qe)"
    by (simp only: q times_divide_eq_right)
  also have "\<dots> = of_int m * 2 powi (k - ?qe)"
    by (simp only: powi_two_quotient)
  also have "\<dots> = of_int m * of_int (2 ^ nat (k - ?qe))"
    using j by (simp only: powi_two_nonneg_int)
  also have "\<dots> = of_int (m * 2 ^ nat (k - ?qe))"
    by (simp only: of_int_mult)
  finally have "rne (?x / quantum ?x) = m * 2 ^ nat (k - ?qe)"
    by (simp only: rne_of_int)
  then have "nearest ?x = 2 powi ?qe * of_int (m * 2 ^ nat (k - ?qe))"
    by (simp only: nearest_def q)
  also have "\<dots> = of_int m * (2 powi ?qe * of_int (2 ^ nat (k - ?qe)))"
    by (simp only: of_int_mult mult.left_commute)
  also have "of_int (2 ^ nat (k - ?qe)) = (2::real) powi (k - ?qe)"
    using j by (rule powi_two_nonneg_int [symmetric])
  also have "(2::real) powi ?qe * 2 powi (k - ?qe) = 2 powi (?qe + (k - ?qe))"
    by (rule power_int_add [symmetric]) simp
  also have "?qe + (k - ?qe) = k"
    by simp
  finally have n: "nearest ?x = ?x" .
  have "?x \<noteq> 0"
    using pos by auto
  then show ?thesis
    unfolding rnd_def n using r by (simp only: if_False not_le [symmetric] if_True)
qed

lemma rnd_values:
  "rnd 1 = Fin 1" "rnd 2 = Fin 2" "rnd (1 / 2) = Fin (1 / 2)" "rnd (1 / 4) = Fin (1 / 4)"
  "rnd (- (1 / 2)) = Fin (- (1 / 2))"
proof -
  show "rnd 1 = Fin 1"
    using rnd_dyadic [of 1 0] by (simp add: power_int_def)
  show "rnd 2 = Fin 2"
    using rnd_dyadic [of 2 0] by (simp add: power_int_def)
  show "rnd (1 / 2) = Fin (1 / 2)"
    using rnd_dyadic [of 1 "- 1"] by (simp add: power_int_def)
  show "rnd (1 / 4) = Fin (1 / 4)"
    using rnd_dyadic [of 1 "- 2"] by (simp add: power_int_def power2_eq_square)
  show "rnd (- (1 / 2)) = Fin (- (1 / 2))"
    using rnd_dyadic [of "- 1" "- 1"] by (simp add: power_int_def)
qed

lemma rnd_large_values:
  "rnd (2 ^ 1022) = Fin (2 ^ 1022)" "rnd (2 ^ 1023) = Fin (2 ^ 1023)"
  "rnd (3 * 2 ^ 1022) = Fin (3 * 2 ^ 1022)"
proof -
  have p: "(2::real) powi 1022 = 2 ^ 1022" "(2::real) powi 1023 = 2 ^ 1023"
    by (simp_all add: power_int_def)
  have a: "\<bar>of_int 1 * 2 powi 1022\<bar> < (2::real) ^ 1024"
    "\<bar>of_int 1 * 2 powi 1023\<bar> < (2::real) ^ 1024"
    "\<bar>of_int 3 * 2 powi 1022\<bar> < (2::real) ^ 1024"
    unfolding p by simp_all
  show "rnd (2 ^ 1022) = Fin (2 ^ 1022)"
    using rnd_dyadic [of 1 1022, OF _ _ _ a(1)] unfolding p by simp
  show "rnd (2 ^ 1023) = Fin (2 ^ 1023)"
    using rnd_dyadic [of 1 1023, OF _ _ _ a(2)] unfolding p by simp
  show "rnd (3 * 2 ^ 1022) = Fin (3 * 2 ^ 1022)"
    using rnd_dyadic [of 3 1022, OF _ _ _ a(3)] unfolding p by simp
qed

lemma rnd_one_plus_tiny:
  assumes "0 \<le> a" and "a \<le> 2 powi (- 54)"
  shows "rnd (1 + a) = Fin 1"
proof -
  let ?x = "1 + a"
  have small: "(2::real) powi (- 54) = 1 / 2 ^ 54"
    by (simp add: power_int_def field_simps)
  have a4: "a * 2 ^ 52 \<le> 1 / 4"
  proof -
    have "a * 2 ^ 52 \<le> (1 / 2 ^ 54) * 2 ^ 52"
      using assms(2) unfolding small by (intro mult_right_mono) simp_all
    then show ?thesis by simp
  qed
  have "a \<le> 1 / 2 ^ 54"
    using assms(2) small by simp
  also have "\<dots> < (1::real)"
    by simp
  finally have a1: "a < 1" .
  have "\<lfloor>log 2 ?x\<rfloor> = 0"
    using assms(1) a1 by (intro floor_log2_eq) simp_all
  moreover have "\<bar>?x\<bar> = ?x"
    using assms(1) by simp
  ultimately have q: "quantum ?x = 2 powi (- 52)"
    by (simp add: quantum_def)
  have q': "(2::real) powi (- 52) = 1 / 2 ^ 52"
    by (simp add: power_int_def field_simps)
  have t: "?x / quantum ?x = of_int (2 ^ 52) + a * 2 ^ 52"
    by (simp add: q q' field_simps)
  have "rne (?x / quantum ?x) = 2 ^ 52"
    unfolding t using assms(1) a4 by (intro rne_just_above) simp_all
  then have "nearest ?x = 1"
    by (simp add: nearest_def q q')
  then show ?thesis
    using assms(1) by (simp add: rnd_def)
qed

lemma rnd_zero [simp]: "rnd 0 = Fin 0"
  by (simp add: rnd_def)

subsection \<open>Facts about the binary64 forward pass\<close>

lemma predict_f64_eq:
  assumes "shape0 W = shape0 X"
  shows "predict_f64 L W X b =
         Inr (tabulate2 (shape1 W) (shape1 X)
               (\<lambda>i j. sigmoid1_f64 L
                  (fadd (lib_dot L (map (\<lambda>k. item W k i) [0..<shape0 X])
                                   (map (\<lambda>k. item X k j) [0..<shape0 X])) b)))"
proof -
  have inner: "map (\<lambda>k. item (transpose_nd W) i k) [0..<shape0 X] =
               map (\<lambda>k. item W k i) [0..<shape0 X]" if "i < shape1 W" for i
    using that assms by (intro map_cong) (simp_all add: transpose_nd_def)
  have "predict_f64 L W X b =
        Inr (tabulate2 (shape1 W) (shape1 X)
              (\<lambda>i j. sigmoid1_f64 L
                 (fadd (lib_dot L (map (\<lambda>k. item (transpose_nd W) i k) [0..<shape0 X])
                                  (map (\<lambda>k. item X k j) [0..<shape0 X])) b)))"
    using assms by (simp add: predict_f64_def dot_f64_def sigmoid_f64_def transpose_nd_def)
  also have "tabulate2 (shape1 W) (shape1 X)
              (\<lambda>i j. sigmoid1_f64 L
                 (fadd (lib_dot L (map (\<lambda>k. item (transpose_nd W) i k) [0..<shape0 X])
                                  (map (\<lambda>k. item X k j) [0..<shape0 X])) b)) =
             tabulate2 (shape1 W) (shape1 X)
              (\<lambda>i j. sigmoid1_f64 L
                 (fadd (lib_dot L (map (\<lambda>k. item W k i) [0..<shape0 X])
                                  (map (\<lambda>k. item X k j) [0..<shape0 X])) b))"
    by (rule tabulate2_cong) (simp only: inner)
  finally show ?thesis .
qed

lemma reciprocal_in_unit_interval:
  assumes "1 \<le> s"
  shows "in_unit_interval (fdiv (Fin 1) (Fin s))"
proof -
  have "0 \<le> 1 / s" "1 / s \<le> 2 powi 0"
    using assms by simp_all
  then obtain a where "rnd (1 / s) = Fin a" "0 \<le> a" "a \<le> 2 powi 0"
    using rnd_le_powi [of "1 / s" 0] by auto
  then show ?thesis
    using assms by (simp add: in_unit_interval_def)
qed

lemma sigmoid1_f64_in_unit_interval:
  assumes sane: "\<forall>v. v \<noteq> NaN \<longrightarrow> lib_exp L v = PInf \<or> (\<exists>a. lib_exp L v = Fin a \<and> 0 \<le> a)"
    and z: "z \<noteq> NaN"
  shows "in_unit_interval (sigmoid1_f64 L z)"
proof -
  from z have "fneg z \<noteq> NaN"
    by (cases z) simp_all
  with sane consider "lib_exp L (fneg z) = PInf"
    | a where "lib_exp L (fneg z) = Fin a" "0 \<le> a"
    by blast
  then show ?thesis
  proof cases
    case 1
    then show ?thesis
      by (simp add: sigmoid1_f64_def in_unit_interval_def)
  next
    case 2
    then have "1 \<le> 1 + a" by simp
    then consider "rnd (1 + a) = PInf" | s where "rnd (1 + a) = Fin s" "1 \<le> s"
      using rnd_ge_one [of "1 + a"] by blast
    then show ?thesis
    proof cases
      case 1
      with 2 show ?thesis
        by (simp add: sigmoid1_f64_def in_unit_interval_def)
    next
      case (2 s)
      with \<open>lib_exp L (fneg z) = Fin a\<close> reciprocal_in_unit_interval [of s] show ?thesis
        by (simp add: sigmoid1_f64_def)
    qed
  qed
qed

lemma exp_rn_nonneg:
  "v \<noteq> NaN \<Longrightarrow> exp_rn v = PInf \<or> (\<exists>a. exp_rn v = Fin a \<and> 0 \<le> a)"
proof (cases v)
  case (Fin x)
  have "0 \<le> exp x" by simp
  from rnd_nonneg [OF this] Fin show ?thesis by simp
qed simp_all

lemma reference_exp_nonneg:
  "\<forall>v. v \<noteq> NaN \<longrightarrow>
     lib_exp reference v = PInf \<or> (\<exists>a. lib_exp reference v = Fin a \<and> 0 \<le> a)"
  by (simp add: reference_def exp_rn_nonneg)

lemma rnd_100: "rnd 100 = Fin 100"
  using rnd_dyadic [of 100 0] by (simp add: power_int_def)

lemma exp_minus_100: "exp (- 100 :: real) \<le> 2 powi (- 100)"
proof -
  have "(2::real) \<le> exp 1"
    using exp_ge_add_one_self [of "1::real"] by simp
  then have "(2::real) ^ 100 \<le> exp 1 ^ 100"
    by (intro power_mono) simp_all
  also have "\<dots> = exp (of_nat 100 * 1)"
    by (rule exp_of_nat_mult [symmetric])
  finally have "(2::real) ^ 100 \<le> exp 100"
    by simp
  then have "1 / exp (100 :: real) \<le> 1 / 2 ^ 100"
    by (intro divide_left_mono) simp_all
  moreover have "exp (- 100 :: real) = 1 / exp 100"
    by (simp add: exp_minus field_simps)
  moreover have "(2::real) powi (- 100) = 1 / 2 ^ 100"
    by (simp add: power_int_def field_simps)
  ultimately show ?thesis by simp
qed

lemma sigmoid1_f64_100: "sigmoid1_f64 reference (Fin 100) = Fin 1"
proof -
  have "0 \<le> exp (- 100 :: real)" by simp
  then obtain a where a: "rnd (exp (- 100)) = Fin a" "0 \<le> a" "a \<le> 2 powi (- 100)"
    using rnd_le_powi [OF _ exp_minus_100] by auto
  have "(2::real) powi (- 100) \<le> 2 powi (- 54)"
    by (intro power_int_increasing) simp_all
  with a have "rnd (1 + a) = Fin 1"
    by (intro rnd_one_plus_tiny) simp_all
  with a show ?thesis
    by (simp add: sigmoid1_f64_def reference_def rnd_values)
qed

subsection \<open>Facts about the binary64 training loop\<close>

lemma predict_f64_shape:
  "predict_f64 L W X b = Inr A \<Longrightarrow> shape0 A = shape1 W \<and> shape1 A = shape1 X"
  by (auto simp: predict_f64_def dot_f64_def sigmoid_f64_def map_nd_def transpose_nd_def
           split: if_splits)

lemma dw_f64_form:
  assumes "dw_f64 L X A Y = Inr G" "shape0 A = 1" "shape0 Y = 1"
  shows "\<exists>g. G = tabulate2 (shape0 X) 1 g"
proof -
  from assms(1) obtain D P q where D: "broadcast2 fsub A Y = Inr D"
    and P: "dot_f64 L X (transpose_nd D) = Inr P"
    and G: "G = map_nd q P"
    unfolding dw_f64_def Let_def by (auto split: if_splits sum.splits)
  from broadcast2_form [OF D assms(2,3)] obtain c g where "D = tabulate2 1 c g"
    by blast
  with P have "\<exists>h. P = tabulate2 (shape0 X) 1 h"
    by (auto simp: dot_f64_def transpose_nd_def split: if_splits)
  with G show ?thesis
    by auto
qed

lemma db_f64_form:
  assumes "db_f64 L A Y = Inr l" "shape0 A = 1" "shape0 Y = 1"
  shows "\<exists>d. l = [d]"
proof -
  from assms(1) obtain D q where D: "broadcast2 fsub A Y = Inr D"
    and l: "l = map q (rows D)"
    unfolding db_f64_def Let_def by (auto split: if_splits sum.splits)
  from broadcast2_form [OF D assms(2,3)] obtain c g where "D = tabulate2 1 c g"
    by blast
  with l show ?thesis
    by (simp add: tabulate2_def)
qed

lemma zero_times_finite: "is_finite g \<Longrightarrow> fsub (Fin 0) (fmul (Fin 0) g) = Fin 0"
  by (cases g) (simp_all add: is_finite_def fsub_def)

lemma finite_rows_column:
  "list_all (list_all is_finite) (rows (tabulate2 n 1 g)) \<longleftrightarrow> (\<forall>i<n. is_finite (g i 0))"
  by (auto simp: tabulate2_def list_all_iff)

lemma update_by_zero_f64:
  assumes "\<forall>i<n. is_finite (g i 0)"
  shows "broadcast2 fsub (zeros_f64 n 1) (map_nd (fmul (Fin 0)) (tabulate2 n 1 g)) =
         Inr (zeros_f64 n 1)"
proof -
  have "broadcast2 fsub (zeros_f64 n 1) (tabulate2 n 1 (\<lambda>i j. fmul (Fin 0) (g i j))) =
        Inr (tabulate2 n 1
          (\<lambda>i j. fsub (item (zeros_f64 n 1) (if n = 1 then 0 else i) 0)
                   (item (tabulate2 n 1 (\<lambda>i j. fmul (Fin 0) (g i j))) (if n = 1 then 0 else i) 0)))"
    by (simp add: broadcast2_def zeros_f64_def)
  also have "tabulate2 n 1
          (\<lambda>i j. fsub (item (zeros_f64 n 1) (if n = 1 then 0 else i) 0)
                   (item (tabulate2 n 1 (\<lambda>i j. fmul (Fin 0) (g i j))) (if n = 1 then 0 else i) 0)) =
        tabulate2 n 1 (\<lambda>i j. Fin 0)"
    using assms by (intro tabulate2_cong) (auto simp: zeros_f64_def zero_times_finite)
  finally show ?thesis
    by (simp add: zeros_f64_def)
qed

lemma gd_step_f64_success:
  assumes W: "f64_W s = zeros_f64 (shape0 X) 1" and b: "f64_b s = Fin 0"
    and H: "\<forall>G d. initial_gradient L X ys = Inr (G, d) \<longrightarrow>
              list_all (list_all is_finite) (rows G) \<and> list_all is_finite d"
    and A: "predict_f64 L (f64_W s) X (f64_b s) = Inr A"
    and J: "cost_f64 L (transpose_nd (reshape_column_f64 ys)) A = Inr J"
    and G: "dw_f64 L X A (transpose_nd (reshape_column_f64 ys)) = Inr G"
    and l: "db_f64 L A (transpose_nd (reshape_column_f64 ys)) = Inr l"
  shows "gd_step_f64 L (Fin 0) X (reshape_column_f64 ys) i s =
         ((if i mod 100 = 0 then s\<lparr>f64_costs := f64_costs s @ [J]\<rparr> else s)
            \<lparr>f64_W := zeros_f64 (shape0 X) 1, f64_b := Fin 0\<rparr>, None)"
proof -
  let ?y = "reshape_column_f64 ys"
  have A1: "shape0 A = 1"
    using predict_f64_shape [OF A] W by (simp add: zeros_f64_def)
  have Y1: "shape0 (transpose_nd ?y) = 1"
    by (simp add: transpose_nd_def reshape_column_f64_def)
  define s1 where "s1 = (if i mod 100 = 0 then s\<lparr>f64_costs := f64_costs s @ [J]\<rparr> else s)"
  have s1: "f64_W s1 = zeros_f64 (shape0 X) 1" "f64_b s1 = Fin 0"
    using W b by (simp_all add: s1_def)
  from dw_f64_form [OF G A1 Y1] obtain g where g: "G = tabulate2 (shape0 X) 1 g"
    by blast
  from db_f64_form [OF l A1 Y1] obtain d where d: "l = [d]"
    by blast
  have "initial_gradient L X ys = Inr (G, l)"
    using A G l W b by (simp add: initial_gradient_def)
  with H have fin: "list_all (list_all is_finite) (rows G)" "list_all is_finite l"
    by blast+
  then have "\<forall>i<shape0 X. is_finite (g i 0)" "is_finite d"
    unfolding g d finite_rows_column by simp_all
  then have "gd_step_f64 L (Fin 0) X ?y i s =
             (s1\<lparr>f64_W := zeros_f64 (shape0 X) 1, f64_b := Fin 0\<rparr>, None)"
    using A J G l d s1 update_by_zero_f64 [of "shape0 X" g]
    by (simp add: gd_step_f64_def s1_def [symmetric] g zero_times_finite)
  then show ?thesis
    by (simp only: s1_def)
qed

lemma gd_step_f64_rate_zero:
  assumes W: "f64_W s = zeros_f64 (shape0 X) 1" and b: "f64_b s = Fin 0"
    and H: "\<forall>G d. initial_gradient L X ys = Inr (G, d) \<longrightarrow>
              list_all (list_all is_finite) (rows G) \<and> list_all is_finite d"
  shows "f64_W (fst (gd_step_f64 L (Fin 0) X (reshape_column_f64 ys) i s)) = zeros_f64 (shape0 X) 1 \<and>
         f64_b (fst (gd_step_f64 L (Fin 0) X (reshape_column_f64 ys) i s)) = Fin 0"
proof (cases "predict_f64 L (f64_W s) X (f64_b s)")
  case (Inl e)
  then show ?thesis using W b by (simp add: gd_step_f64_def)
next
  case A: (Inr A)
  let ?y = "reshape_column_f64 ys"
  show ?thesis
  proof (cases "cost_f64 L (transpose_nd ?y) A")
    case (Inl e)
    then show ?thesis using W b A by (simp add: gd_step_f64_def)
  next
    case J: (Inr J)
    show ?thesis
    proof (cases "dw_f64 L X A (transpose_nd ?y)")
      case (Inl e)
      then show ?thesis using W b A J by (simp add: gd_step_f64_def Let_def)
    next
      case G: (Inr G)
      show ?thesis
      proof (cases "db_f64 L A (transpose_nd ?y)")
        case (Inl e)
        then show ?thesis using W b A J G by (simp add: gd_step_f64_def Let_def)
      next
        case l: (Inr l)
        show ?thesis
          by (simp add: gd_step_f64_success [OF W b H A J G l])
      qed
    qed
  qed
qed

lemma cost_f64_ok:
  assumes "shape0 Y = 1" "shape1 Y = m" "shape0 A = 1" "shape1 A = m" "0 < m"
  shows "\<exists>J. cost_f64 L Y A = Inr J"
proof -
  have "broadcast2 (loss1_f64 L) Y A =
        Inr (tabulate2 1 m (\<lambda>i j. loss1_f64 L (item Y 0 j) (item A 0 j)))"
    using assms(1-4) by (rule broadcast2_row)
  then show ?thesis
    using assms(2,5) by (simp add: cost_f64_def)
qed

lemma dw_f64_ok:
  assumes "shape1 X = m" "shape0 A = 1" "shape1 A = m" "shape0 Y = 1" "shape1 Y = m" "0 < m"
  shows "\<exists>G. dw_f64 L X A Y = Inr G"
proof -
  have "broadcast2 fsub A Y = Inr (tabulate2 1 m (\<lambda>i j. fsub (item A 0 j) (item Y 0 j)))"
    using assms(2-5) by (rule broadcast2_row)
  then show ?thesis
    using assms(1,5,6) by (simp add: dw_f64_def dot_f64_def transpose_nd_def)
qed

lemma db_f64_ok:
  assumes "shape0 A = 1" "shape1 A = m" "shape0 Y = 1" "shape1 Y = m" "0 < m"
  shows "\<exists>l. db_f64 L A Y = Inr l"
proof -
  have "broadcast2 fsub A Y = Inr (tabulate2 1 m (\<lambda>i j. fsub (item A 0 j) (item Y 0 j)))"
    using assms(1-4) by (rule broadcast2_row)
  then show ?thesis
    using assms(4,5) by (simp add: db_f64_def)
qed

lemma gd_step_f64_rate_zero_runs:
  assumes W: "f64_W s = zeros_f64 (shape0 X) 1" and b: "f64_b s = Fin 0"
    and H: "\<forall>G d. initial_gradient L X ys = Inr (G, d) \<longrightarrow>
              list_all (list_all is_finite) (rows G) \<and> list_all is_finite d"
    and m: "shape1 X = length ys" "0 < length ys"
  shows "snd (gd_step_f64 L (Fin 0) X (reshape_column_f64 ys) i s) = None \<and>
         length (f64_costs (fst (gd_step_f64 L (Fin 0) X (reshape_column_f64 ys) i s))) =
           length (f64_costs s) + (if i mod 100 = 0 then 1 else 0)"
proof -
  let ?Y = "transpose_nd (reshape_column_f64 ys)"
  have Y: "shape0 ?Y = 1" "shape1 ?Y = length ys"
    by (simp_all add: transpose_nd_def reshape_column_f64_def)
  obtain A where A: "predict_f64 L (f64_W s) X (f64_b s) = Inr A"
    using predict_f64_eq [of "f64_W s" X L "f64_b s"] W by (simp add: zeros_f64_def)
  have A1: "shape0 A = 1" "shape1 A = length ys"
    using predict_f64_shape [OF A] W m by (simp_all add: zeros_f64_def)
  obtain J where J: "cost_f64 L ?Y A = Inr J"
    using cost_f64_ok [OF Y A1 m(2)] by blast
  obtain G where G: "dw_f64 L X A ?Y = Inr G"
    using dw_f64_ok [OF m(1) A1 Y m(2)] by blast
  obtain l where l: "db_f64 L A ?Y = Inr l"
    using db_f64_ok [OF A1 Y m(2)] by blast
  show ?thesis
    by (simp add: gd_step_f64_success [OF W b H A J G l])
qed

lemma gd_loop_f64_rate_zero:
  assumes "f64_W s = zeros_f64 (shape0 X) 1" "f64_b s = Fin 0"
    and H: "\<forall>G d. initial_gradient L X ys = Inr (G, d) \<longrightarrow>
              list_all (list_all is_finite) (rows G) \<and> list_all is_finite d"
  shows "f64_W (fst (gd_loop_f64 L (Fin 0) X (reshape_column_f64 ys) is s)) = zeros_f64 (shape0 X) 1 \<and>
         f64_b (fst (gd_loop_f64 L (Fin 0) X (reshape_column_f64 ys) is s)) = Fin 0"
  using assms(1,2)
proof (induction "is" arbitrary: s)
  case Nil
  then show ?case by simp
next
  case (Cons i "is")
  obtain s' r where step: "gd_step_f64 L (Fin 0) X (reshape_column_f64 ys) i s = (s', r)"
    by (cases "gd_step_f64 L (Fin 0) X (reshape_column_f64 ys) i s")
  from gd_step_f64_rate_zero [OF Cons.prems H, of i] step
  have s': "f64_W s' = zeros_f64 (shape0 X) 1" "f64_b s' = Fin 0"
    by simp_all
  show ?case
  proof (cases r)
    case None
    then show ?thesis
      using step Cons.IH [OF s'] by simp
  next
    case (Some e)
    then show ?thesis
      using step s' by simp
  qed
qed

lemma gd_loop_f64_rate_zero_runs:
  assumes "f64_W s = zeros_f64 (shape0 X) 1" "f64_b s = Fin 0"
    and H: "\<forall>G d. initial_gradient L X ys = Inr (G, d) \<longrightarrow>
              list_all (list_all is_finite) (rows G) \<and> list_all is_finite d"
    and m: "shape1 X = length ys" "0 < length ys"
  shows "snd (gd_loop_f64 L (Fin 0) X (reshape_column_f64 ys) is s) = None \<and>
         length (f64_costs (fst (gd_loop_f64 L (Fin 0) X (reshape_column_f64 ys) is s))) =
           length (f64_costs s) + length (filter (\<lambda>i. i mod 100 = 0) is)"
  using assms(1,2)
proof (induction "is" arbitrary: s)
  case Nil
  then show ?case by simp
next
  case (Cons i "is")
  obtain s' r where step: "gd_step_f64 L (Fin 0) X (reshape_column_f64 ys) i s = (s', r)"
    by (cases "gd_step_f64 L (Fin 0) X (reshape_column_f64 ys) i s")
  from gd_step_f64_rate_zero [OF Cons.prems H, of i] step
  have s': "f64_W s' = zeros_f64 (shape0 X) 1" "f64_b s' = Fin 0"
    by simp_all
  from gd_step_f64_rate_zero_runs [OF Cons.prems H m, of i] step
  have r: "r = None"
    and c: "length (f64_costs s') = length (f64_costs s) + (if i mod 100 = 0 then 1 else 0)"
    by simp_all
  show ?case
    using step r c Cons.IH [OF s'] by simp
qed

lemma sigmoid1_f64_zero: "sigmoid1_f64 reference (Fin 0) = Fin (1 / 2)"
  by (simp add: sigmoid1_f64_def reference_def rnd_values)

lemma dot_seq_zero_weight: "dot_seq [Fin 0] [Fin x] = Fin 0"
  by (simp add: dot_seq_def)

lemma predict_f64_zero_weight:
  assumes "shape0 X = 1" and "\<forall>j<shape1 X. is_finite (item X 0 j)"
  shows "predict_f64 reference (zeros_f64 1 1) X (Fin 0) =
         Inr (tabulate2 1 (shape1 X) (\<lambda>i j. Fin (1 / 2)))"
proof -
  have "predict_f64 reference (zeros_f64 1 1) X (Fin 0) =
        Inr (tabulate2 1 (shape1 X)
          (\<lambda>i j. sigmoid1_f64 reference
             (fadd (lib_dot reference (map (\<lambda>k. item (zeros_f64 1 1) k i) [0..<1])
                                      (map (\<lambda>k. item X k j) [0..<1])) (Fin 0))))"
    using predict_f64_eq [of "zeros_f64 1 1" X reference "Fin 0"] assms(1)
    by (simp add: zeros_f64_def)
  also have "tabulate2 1 (shape1 X)
          (\<lambda>i j. sigmoid1_f64 reference
             (fadd (lib_dot reference (map (\<lambda>k. item (zeros_f64 1 1) k i) [0..<1])
                                      (map (\<lambda>k. item X k j) [0..<1])) (Fin 0))) =
        tabulate2 1 (shape1 X) (\<lambda>i j. Fin (1 / 2))"
  proof (rule tabulate2_cong)
    fix i j :: nat assume "i < 1" "j < shape1 X"
    with assms(2) obtain x where "item X 0 j = Fin x"
      by (cases "item X 0 j") (auto simp: is_finite_def)
    with \<open>i < 1\<close> show "sigmoid1_f64 reference
             (fadd (lib_dot reference (map (\<lambda>k. item (zeros_f64 1 1) k i) [0..<1])
                                      (map (\<lambda>k. item X k j) [0..<1])) (Fin 0)) = Fin (1 / 2)"
      by (simp add: zeros_f64_def reference_def dot_seq_zero_weight
            sigmoid1_f64_zero [unfolded reference_def])
  qed
  finally show ?thesis .
qed

lemma rnd_big: "rnd big = Fin big"
  by (simp only: big_def rnd_large_values)

lemma dot_seq_overflow:
  "dot_seq [Fin big, Fin big, Fin big, Fin big]
           [Fin (1 / 2), Fin (1 / 2), Fin (1 / 2), Fin (1 / 2)] = PInf"
proof -
  define h :: real where "h = 2 ^ 1022"
  define t :: real where "t = 3 * 2 ^ 1022"
  have e1: "big * (1 / 2) = h" and e2: "0 + h = h" and e3: "h + h = big" and e4: "big + h = t"
    by (simp_all add: big_def h_def t_def)
  have e5: "2 ^ 1024 \<le> t + h"
    by (simp add: h_def t_def)
  have r: "rnd h = Fin h" "rnd big = Fin big" "rnd t = Fin t"
    unfolding h_def t_def big_def by (simp_all only: rnd_large_values)
  have m: "fmul (Fin big) (Fin (1 / 2)) = Fin h"
    by (simp only: fmul.simps e1 r)
  have a1: "fadd (Fin 0) (Fin h) = Fin h"
    by (simp only: fadd.simps e2 r)
  have a2: "fadd (Fin h) (Fin h) = Fin big"
    by (simp only: fadd.simps e3 r)
  have a3: "fadd (Fin big) (Fin h) = Fin t"
    by (simp only: fadd.simps e4 r)
  have a4: "fadd (Fin t) (Fin h) = PInf"
    using rnd_overflow [OF e5] by (simp only: fadd.simps)
  show ?thesis
    by (simp only: dot_seq_def zip_Cons_Cons zip_Nil foldl_Cons foldl_Nil prod.case m a1 a2 a3 a4)
qed

lemma initial_gradient_example:
  "initial_gradient reference \<lparr>shape0 = 1, shape1 = 2, rows = [[Fin 1, Fin 2]]\<rparr> [Fin 1, Fin 0] =
     Inr (\<lparr>shape0 = 1, shape1 = 1, rows = [[Fin (1 / 4)]]\<rparr>, [Fin 0])"
proof -
  let ?X = "\<lparr>shape0 = 1, shape1 = 2, rows = [[Fin 1, Fin 2]]\<rparr>"
  let ?ys = "[Fin 1, Fin 0]"
  let ?Y = "transpose_nd (reshape_column_f64 ?ys)"
  let ?A = "tabulate2 1 2 (\<lambda>i j. Fin (1 / 2))"
  let ?D = "\<lparr>shape0 = 1, shape1 = 2, rows = [[Fin (- (1 / 2)), Fin (1 / 2)]]\<rparr>"
  have two: "j < 2 \<longleftrightarrow> j = 0 \<or> j = 1" for j :: nat
    by auto
  have Ysh: "shape0 ?Y = 1" "shape1 ?Y = 2"
    by (simp_all add: transpose_nd_def reshape_column_f64_def)
  have "\<forall>j<shape1 ?X. is_finite (item ?X 0 j)"
    by (auto simp: two is_finite_def item_def)
  then have A: "predict_f64 reference (zeros_f64 (shape0 ?X) 1) ?X (Fin 0) = Inr ?A"
    using predict_f64_zero_weight [of ?X] by simp
  have D: "broadcast2 fsub ?A ?Y = Inr ?D"
  proof -
    have "broadcast2 fsub ?A ?Y = Inr (tabulate2 1 2 (\<lambda>i j. fsub (item ?A 0 j) (item ?Y 0 j)))"
      using Ysh by (intro broadcast2_row) simp_all
    also have "tabulate2 1 2 (\<lambda>i j. fsub (item ?A 0 j) (item ?Y 0 j)) = ?D"
      by (simp add: tabulate2_def upt_small item_def transpose_nd_def reshape_column_f64_def
            fsub_def rnd_values)
    finally show ?thesis .
  qed
  have q: "rnd (1 / real 2) = Fin (1 / 2)"
    by (simp add: rnd_values)
  have P: "dot_f64 reference ?X (transpose_nd ?D) = Inr \<lparr>shape0 = 1, shape1 = 1, rows = [[Fin (1 / 2)]]\<rparr>"
    by (simp add: dot_f64_def transpose_nd_def tabulate2_def upt_small item_def reference_def
          dot_seq_def rnd_values)
  have "dw_f64 reference ?X ?A ?Y =
        Inr (map_nd (fmul (Fin (1 / 2))) \<lparr>shape0 = 1, shape1 = 1, rows = [[Fin (1 / 2)]]\<rparr>)"
    by (simp only: dw_f64_def Let_def Ysh rel_simps if_False D sum.case P q)
  then have G: "dw_f64 reference ?X ?A ?Y = Inr \<lparr>shape0 = 1, shape1 = 1, rows = [[Fin (1 / 4)]]\<rparr>"
    by (simp add: map_nd_def rnd_values)
  have "db_f64 reference ?A ?Y =
        Inr (map (\<lambda>r. fmul (Fin (1 / 2)) (lib_sum reference r)) (rows ?D))"
    by (simp only: db_f64_def Let_def Ysh rel_simps if_False D sum.case q)
  then have l: "db_f64 reference ?A ?Y = Inr [Fin 0]"
    by (simp add: reference_def sum_seq_def rnd_values)
  show ?thesis
    by (simp only: initial_gradient_def Let_def A sum.case G l)
qed

subsection \<open>The other end of the range\<close>

lemma exp_2000: "2 ^ 1024 \<le> exp (2000 :: real)"
proof -
  have "(2::real) \<le> exp 1"
    using exp_ge_add_one_self [of "1::real"] by simp
  then have "(2::real) ^ 2000 \<le> exp 1 ^ 2000"
    by (intro power_mono) simp_all
  also have "\<dots> = exp (of_nat 2000 * 1)"
    by (rule exp_of_nat_mult [symmetric])
  finally have "(2::real) ^ 2000 \<le> exp 2000"
    by simp
  moreover have "(2::real) ^ 1024 \<le> 2 ^ 2000"
    by (intro power_increasing) simp_all
  ultimately show ?thesis by linarith
qed

lemma sigmoid1_f64_reaches_zero: "sigmoid1_f64 reference (Fin (- 2000)) = Fin 0"
  using rnd_overflow [OF exp_2000] by (simp add: sigmoid1_f64_def reference_def)

subsection \<open>The forward pass\<close>

text \<open>
  C1, as the code has it. For a weight array \<open>W\<close> of shape \<open>(n, 1)\<close>, a feature array \<open>X\<close> of
  shape \<open>(n, m)\<close> and a bias \<open>b\<close>, all float64, \<^verbatim>\<open>predict(W, X, b)\<close> raises nothing and
  returns the array of shape \<open>(1, m)\<close> whose entry \<open>j\<close> is \<open>1 / (1 + exp(-z))\<close>, computed in
  float64, for the score \<open>z = (W\<^sup>T X)\<^sub>j + b\<close>. When the score is not \<open>nan\<close> the entry lies in the
  closed interval from 0 to 1. The library's \<^verbatim>\<open>np.exp\<close> is assumed to return a number that is
  not negative, or \<open>inf\<close>, at every argument other than \<open>nan\<close>; nothing is assumed of
  \<^verbatim>\<open>np.dot\<close>.
\<close>

theorem predict_f64_closed_interval:
  assumes "shape W = (n, 1)" and "shape X = (n, m)"
    and "\<forall>v. v \<noteq> NaN \<longrightarrow> lib_exp L v = PInf \<or> (\<exists>a. lib_exp L v = Fin a \<and> 0 \<le> a)"
  shows "\<exists>A. predict_f64 L W X b = Inr A \<and> is_ndarray A \<and> shape A = (1, m) \<and>
     (\<forall>j<m. \<forall>z.
        z = fadd (lib_dot L (map (\<lambda>k. item W k 0) [0..<n]) (map (\<lambda>k. item X k j) [0..<n])) b \<longrightarrow>
        item A 0 j = fdiv (Fin 1) (fadd (Fin 1) (lib_exp L (fneg z))) \<and>
        (z \<noteq> NaN \<longrightarrow> in_unit_interval (item A 0 j)))"
proof -
  let ?z = "\<lambda>i j. fadd (lib_dot L (map (\<lambda>k. item W k i) [0..<n])
                                     (map (\<lambda>k. item X k j) [0..<n])) b"
  let ?A = "tabulate2 1 m (\<lambda>i j. sigmoid1_f64 L (?z i j))"
  from assms have sh: "shape0 W = n" "shape1 W = 1" "shape0 X = n" "shape1 X = m"
    by (simp_all add: shape_def)
  have "predict_f64 L W X b = Inr ?A"
    using predict_f64_eq [of W X L b] sh by simp
  moreover have "is_ndarray ?A" "shape ?A = (1, m)"
    by (simp_all add: shape_def)
  moreover have "item ?A 0 j = fdiv (Fin 1) (fadd (Fin 1) (lib_exp L (fneg (?z 0 j)))) \<and>
                 (?z 0 j \<noteq> NaN \<longrightarrow> in_unit_interval (item ?A 0 j))" if "j < m" for j
  proof
    show "item ?A 0 j = fdiv (Fin 1) (fadd (Fin 1) (lib_exp L (fneg (?z 0 j))))"
      using that by (simp add: sigmoid1_f64_def)
    show "?z 0 j \<noteq> NaN \<longrightarrow> in_unit_interval (item ?A 0 j)"
      using that sigmoid1_f64_in_unit_interval [OF assms(3), of "?z 0 j"] by simp
  qed
  ultimately show ?thesis by blast
qed

theorem predict_f64_closed_interval_witness:
  "\<exists>A. predict_f64 reference \<lparr>shape0 = 1, shape1 = 1, rows = [[Fin 1]]\<rparr>
          \<lparr>shape0 = 1, shape1 = 2, rows = [[Fin 100, Fin 0]]\<rparr> (Fin 0) = Inr A \<and>
       is_ndarray A \<and> shape A = (1, 2) \<and> in_unit_interval (item A 0 0)"
proof -
  let ?W = "\<lparr>shape0 = 1, shape1 = 1, rows = [[Fin 1]]\<rparr>"
  let ?X = "\<lparr>shape0 = 1, shape1 = 2, rows = [[Fin 100, Fin 0]]\<rparr>"
  let ?z = "fadd (lib_dot reference (map (\<lambda>k. item ?W k 0) [0..<1])
                                    (map (\<lambda>k. item ?X k 0) [0..<1])) (Fin 0)"
  have "shape ?W = (1, 1)" "shape ?X = (1, 2)"
    by (simp_all add: shape_def)
  from predict_f64_closed_interval [OF this reference_exp_nonneg, of "Fin 0"]
  obtain A where A: "predict_f64 reference ?W ?X (Fin 0) = Inr A" "is_ndarray A" "shape A = (1, 2)"
    and e: "\<forall>j<2. \<forall>z.
        z = fadd (lib_dot reference (map (\<lambda>k. item ?W k 0) [0..<1])
                                    (map (\<lambda>k. item ?X k j) [0..<1])) (Fin 0) \<longrightarrow>
        item A 0 j = fdiv (Fin 1) (fadd (Fin 1) (lib_exp reference (fneg z))) \<and>
        (z \<noteq> NaN \<longrightarrow> in_unit_interval (item A 0 j))"
    by blast
  have "?z = Fin 100"
    by (simp add: reference_def dot_seq_def item_def rnd_100)
  then have "?z \<noteq> NaN"
    by simp
  moreover have "(0::nat) < 2"
    by simp
  ultimately have "in_unit_interval (item A 0 0)"
    using e by blast
  with A show ?thesis by blast
qed

text \<open>
  The ends of the interval are reached with finite inputs, so the entries do not all lie
  strictly between 0 and 1: with \<open>W = [[1.0]]\<close>, \<open>X = [[100.0]]\<close> and \<open>b = 0.0\<close> the score is
  100, \<open>exp(-100)\<close> is below half the spacing of the floats at 1, \<open>1 + exp(-100)\<close> rounds
  to 1, and the prediction is exactly 1.0. (At the score \<open>-2000\<close> the exponential overflows
  and the prediction is exactly 0.0, lemma \<open>sigmoid1_f64_reaches_zero\<close>.)
\<close>

theorem predict_f64_reaches_one:
  "predict_f64 reference \<lparr>shape0 = 1, shape1 = 1, rows = [[Fin 1]]\<rparr>
     \<lparr>shape0 = 1, shape1 = 1, rows = [[Fin 100]]\<rparr> (Fin 0) =
     Inr \<lparr>shape0 = 1, shape1 = 1, rows = [[Fin 1]]\<rparr> \<and>
   \<not> strictly_inside_unit_interval (Fin 1)"
proof -
  let ?W = "\<lparr>shape0 = 1, shape1 = 1, rows = [[Fin 1]]\<rparr>"
  let ?X = "\<lparr>shape0 = 1, shape1 = 1, rows = [[Fin 100]]\<rparr>"
  have z: "fadd (lib_dot reference [Fin 1] [Fin 100]) (Fin 0) = Fin 100"
    by (simp add: reference_def dot_seq_def rnd_100)
  have "predict_f64 reference ?W ?X (Fin 0) =
        Inr (tabulate2 1 1 (\<lambda>i j. sigmoid1_f64 reference (fadd
           (lib_dot reference (map (\<lambda>k. item ?W k i) [0..<1])
                              (map (\<lambda>k. item ?X k j) [0..<1])) (Fin 0))))"
    using predict_f64_eq [of ?W ?X reference "Fin 0"] by simp
  also have "tabulate2 1 1 (\<lambda>i j. sigmoid1_f64 reference (fadd
           (lib_dot reference (map (\<lambda>k. item ?W k i) [0..<1])
                              (map (\<lambda>k. item ?X k j) [0..<1])) (Fin 0))) =
        tabulate2 1 1 (\<lambda>i j. Fin 1)"
    by (rule tabulate2_cong) (simp add: item_def z sigmoid1_f64_100)
  finally show ?thesis
    by (simp add: tabulate2_def strictly_inside_unit_interval_def)
qed

subsection \<open>Gradients\<close>



subsection \<open>The initial cost\<close>

text \<open>
  C4. For every feature array \<open>X\<close> of shape \<open>(n, m)\<close> and every label row \<open>Y\<close> of shape
  \<open>(1, m)\<close> with at least one example, the predictions made with all-zero weights and
  zero bias have cost \<open>ln 2\<close>, whatever the features (and whatever the labels).
\<close>

theorem initial_cost_ln2:
  assumes "shape X = (n, m)" and "shape Y = (1, m)" and "0 < m"
  shows "\<exists>A. predict (zeros n 1) X 0 = Inr A \<and> cost Y A = Inr [Some (ln 2)]"
proof -
  from assms have "shape0 X = n" "shape1 X = m"
    by (simp_all add: shape_def)
  then have "predict (zeros n 1) X 0 = Inr (tabulate2 1 m (\<lambda>i j. 1 / 2))"
    using predict_zeros [of X n] by simp
  with cost_half [OF assms(2,3)] show ?thesis by simp
qed

theorem initial_cost_ln2_witness:
  "\<exists>A. predict (zeros 2 1) \<lparr>shape0 = 2, shape1 = 2, rows = [[1, 2], [3, 4]]\<rparr> 0 = Inr A \<and>
       cost \<lparr>shape0 = 1, shape1 = 2, rows = [[1, 0]]\<rparr> A = Inr [Some (ln 2)]"
proof -
  have "shape \<lparr>shape0 = 2, shape1 = 2, rows = [[1::real, 2], [3, 4]]\<rparr> = (2, 2)"
    and "shape \<lparr>shape0 = 1, shape1 = 2, rows = [[1::real, 0]]\<rparr> = (1, 2)"
    and "0 < (2::nat)"
    by (simp_all add: shape_def)
  then show ?thesis
    by (rule initial_cost_ln2)
qed

subsection \<open>Learning rate zero\<close>

text \<open>
  C5, as the code has it. The training cell run on float64 with learning rate 0 ends with
  \<open>W\<close> the zero vector and \<open>b = 0\<close>, for every iteration count, provided that the gradient
  at the zero parameters has only finite entries; this holds also when an exception stops
  the loop, and for every library. When moreover the label vector has one label for each
  column of the feature array, and there is at least one, no exception occurs, all
  iterations run, and one cost is recorded for every iteration whose index is a multiple
  of 100.
\<close>

theorem rate_zero_keeps_parameters_f64:
  assumes "\<forall>G d. initial_gradient L X ys = Inr (G, d) \<longrightarrow>
             list_all (list_all is_finite) (rows G) \<and> list_all is_finite d"
  shows "f64_W (fst (train_f64 L k (Fin 0) X ys)) = zeros_f64 (shape0 X) 1 \<and>
         f64_b (fst (train_f64 L k (Fin 0) X ys)) = Fin 0 \<and>
         (shape1 X = length ys \<and> 0 < length ys \<longrightarrow>
            snd (train_f64 L k (Fin 0) X ys) = None \<and>
            length (f64_costs (fst (train_f64 L k (Fin 0) X ys))) =
              length (filter (\<lambda>i. i mod 100 = 0) [0..<k]))"
proof -
  let ?s = "\<lparr>f64_W = zeros_f64 (shape0 X) 1, f64_b = Fin 0, f64_costs = []\<rparr>"
  have init: "f64_W ?s = zeros_f64 (shape0 X) 1" "f64_b ?s = Fin 0"
    by simp_all
  show ?thesis
    unfolding train_f64_def
    using gd_loop_f64_rate_zero [OF init assms, of "[0..<k]"]
      gd_loop_f64_rate_zero_runs [OF init assms, of "[0..<k]"]
    by auto
qed

theorem rate_zero_keeps_parameters_f64_witness:
  "f64_W (fst (train_f64 reference 3 (Fin 0)
      \<lparr>shape0 = 1, shape1 = 2, rows = [[Fin 1, Fin 2]]\<rparr> [Fin 1, Fin 0])) = zeros_f64 1 1 \<and>
   f64_b (fst (train_f64 reference 3 (Fin 0)
      \<lparr>shape0 = 1, shape1 = 2, rows = [[Fin 1, Fin 2]]\<rparr> [Fin 1, Fin 0])) = Fin 0 \<and>
   snd (train_f64 reference 3 (Fin 0)
      \<lparr>shape0 = 1, shape1 = 2, rows = [[Fin 1, Fin 2]]\<rparr> [Fin 1, Fin 0]) = None \<and>
   length (f64_costs (fst (train_f64 reference 3 (Fin 0)
      \<lparr>shape0 = 1, shape1 = 2, rows = [[Fin 1, Fin 2]]\<rparr> [Fin 1, Fin 0]))) = 1"
proof -
  let ?X = "\<lparr>shape0 = 1, shape1 = 2, rows = [[Fin 1, Fin 2]]\<rparr>"
  let ?ys = "[Fin 1, Fin 0]"
  have H: "\<forall>G d. initial_gradient reference ?X ?ys = Inr (G, d) \<longrightarrow>
             list_all (list_all is_finite) (rows G) \<and> list_all is_finite d"
    unfolding initial_gradient_example by (auto simp: is_finite_def)
  have "[0..<3] = [0, 1, 2]"
    by (simp add: upt_rec)
  then have "length (filter (\<lambda>i. i mod 100 = 0) [0..<3]) = 1"
    by simp
  with rate_zero_keeps_parameters_f64 [OF H, of 3] show ?thesis
    by (simp add: zeros_f64_def)
qed

text \<open>
  Without the proviso the parameters change: the update is \<open>W - 0 * dw\<close>, and \<open>0 * inf\<close> is
  \<open>nan\<close>. With one feature, four examples whose feature is \<open>2\<^sup>1\<^sup>0\<^sup>2\<^sup>3\<close> (a float64), labels 0 and
  one iteration, the predictions are 0.5, the sum of the four products \<open>2\<^sup>1\<^sup>0\<^sup>2\<^sup>3 * 0.5\<close>
  overflows in \<^verbatim>\<open>np.dot\<close>, the gradient is \<open>inf\<close>, and \<open>W\<close> ends with the entry \<open>nan\<close>.
\<close>

theorem rate_zero_overflow:
  "f64_W (fst (train_f64 reference 1 (Fin 0)
      \<lparr>shape0 = 1, shape1 = 4, rows = [[Fin big, Fin big, Fin big, Fin big]]\<rparr>
      [Fin 0, Fin 0, Fin 0, Fin 0])) =
     \<lparr>shape0 = 1, shape1 = 1, rows = [[NaN]]\<rparr> \<and>
   f64_W (fst (train_f64 reference 1 (Fin 0)
      \<lparr>shape0 = 1, shape1 = 4, rows = [[Fin big, Fin big, Fin big, Fin big]]\<rparr>
      [Fin 0, Fin 0, Fin 0, Fin 0])) \<noteq> zeros_f64 1 1 \<and>
   snd (train_f64 reference 1 (Fin 0)
      \<lparr>shape0 = 1, shape1 = 4, rows = [[Fin big, Fin big, Fin big, Fin big]]\<rparr>
      [Fin 0, Fin 0, Fin 0, Fin 0]) = None \<and>
   rnd big = Fin big"
proof -
  let ?X = "\<lparr>shape0 = 1, shape1 = 4, rows = [[Fin big, Fin big, Fin big, Fin big]]\<rparr>"
  let ?ys = "[Fin 0, Fin 0, Fin 0, Fin 0]"
  let ?Y = "transpose_nd (reshape_column_f64 ?ys)"
  let ?A = "tabulate2 1 4 (\<lambda>i j. Fin (1 / 2))"
  let ?s = "\<lparr>f64_W = zeros_f64 (shape0 ?X) 1, f64_b = Fin 0, f64_costs = []\<rparr>"
  have four: "j < 4 \<longleftrightarrow> j = 0 \<or> j = 1 \<or> j = 2 \<or> j = 3" for j :: nat
    by auto
  have Xitem: "item ?X 0 j = Fin big" if "j < 4" for j
    using that unfolding four by (auto simp: item_def)
  have Yitem: "item ?Y 0 j = Fin 0" if "j < 4" for j
    using that unfolding four by (auto simp: item_def transpose_nd_def reshape_column_f64_def tabulate2_def)
  have Ysh: "shape0 ?Y = 1" "shape1 ?Y = 4"
    by (simp_all add: transpose_nd_def reshape_column_f64_def)
  have A: "predict_f64 reference (f64_W ?s) ?X (f64_b ?s) = Inr ?A"
    using predict_f64_zero_weight [of ?X] Xitem by (simp add: is_finite_def)
  obtain J where J: "cost_f64 reference ?Y ?A = Inr J"
    using cost_f64_ok [of ?Y 4 ?A reference] Ysh by auto
  have D: "broadcast2 fsub ?A ?Y = Inr ?A"
  proof -
    have "broadcast2 fsub ?A ?Y = Inr (tabulate2 1 4 (\<lambda>i j. fsub (item ?A 0 j) (item ?Y 0 j)))"
      using Ysh by (intro broadcast2_row) simp_all
    also have "tabulate2 1 4 (\<lambda>i j. fsub (item ?A 0 j) (item ?Y 0 j)) = ?A"
      by (rule tabulate2_cong) (simp add: Yitem fsub_def rnd_values)
    finally show ?thesis .
  qed
  have G: "dw_f64 reference ?X ?A ?Y = Inr (tabulate2 1 1 (\<lambda>i j. PInf))"
  proof -
    have "dot_f64 reference ?X (transpose_nd ?A) =
          Inr (tabulate2 1 1 (\<lambda>i j. lib_dot reference (map (\<lambda>k. item ?X i k) [0..<4])
                 (map (\<lambda>k. item (transpose_nd ?A) k j) [0..<4])))"
      by (simp add: dot_f64_def transpose_nd_def)
    also have "tabulate2 1 1 (\<lambda>i j. lib_dot reference (map (\<lambda>k. item ?X i k) [0..<4])
                 (map (\<lambda>k. item (transpose_nd ?A) k j) [0..<4])) =
               tabulate2 1 1 (\<lambda>i j. PInf)"
    proof (rule tabulate2_cong)
      fix i j :: nat assume "i < 1" "j < 1"
      then have ij: "i = 0" "j = 0" by simp_all
      have u: "[0..<4] = [0, 1, 2, 3]"
        by (simp add: upt_rec)
      have "map (\<lambda>k. item ?X 0 k) [0..<4] = [Fin big, Fin big, Fin big, Fin big]"
        unfolding u by (simp add: item_def)
      moreover have "map (\<lambda>k. item (transpose_nd ?A) k 0) [0..<4] =
                     [Fin (1 / 2), Fin (1 / 2), Fin (1 / 2), Fin (1 / 2)]"
        unfolding u by (simp add: transpose_nd_def)
      ultimately show "lib_dot reference (map (\<lambda>k. item ?X i k) [0..<4])
                 (map (\<lambda>k. item (transpose_nd ?A) k j) [0..<4]) = PInf"
        unfolding ij by (simp add: reference_def dot_seq_overflow)
    qed
    finally have P: "dot_f64 reference ?X (transpose_nd ?A) = Inr (tabulate2 1 1 (\<lambda>i j. PInf))" .
    have q: "rnd (1 / real 4) = Fin (1 / 4)"
      by (simp add: rnd_values)
    have "dw_f64 reference ?X ?A ?Y = Inr (map_nd (fmul (Fin (1 / 4))) (tabulate2 1 1 (\<lambda>i j. PInf)))"
      by (simp only: dw_f64_def Let_def Ysh rel_simps if_False D sum.case P q)
    then show ?thesis
      by (simp add: signed_inf_def)
  qed
  obtain l where l: "db_f64 reference ?A ?Y = Inr l"
    using db_f64_ok [of ?A 4 ?Y reference] Ysh by auto
  from db_f64_form [OF l] Ysh obtain d where d: "l = [d]"
    by auto
  let ?s1 = "?s\<lparr>f64_costs := f64_costs ?s @ [J]\<rparr>"
  have U: "broadcast2 fsub (f64_W ?s1) (map_nd (fmul (Fin 0)) (tabulate2 1 1 (\<lambda>i j. PInf))) =
           Inr (tabulate2 1 1 (\<lambda>i j. NaN))"
    by (simp add: broadcast2_def broadcast_dim_def zeros_f64_def fsub_def tabulate2_def
          item_def map_nd_def)
  have step: "gd_step_f64 reference (Fin 0) ?X (reshape_column_f64 ?ys) 0 ?s =
        (?s1\<lparr>f64_W := tabulate2 1 1 (\<lambda>i j. NaN),
              f64_b := fsub (f64_b ?s1) (fmul (Fin 0) d)\<rparr>, None)"
    by (simp only: gd_step_f64_def A sum.case J Let_def G l d U list.case mod_0 simp_thms if_True)
  have "train_f64 reference 1 (Fin 0) ?X ?ys =
        (?s1\<lparr>f64_W := tabulate2 1 1 (\<lambda>i j. NaN),
              f64_b := fsub (f64_b ?s1) (fmul (Fin 0) d)\<rparr>, None)"
    by (simp only: train_f64_def upt_small gd_loop_f64.simps step prod.case option.case)
  then have "f64_W (fst (train_f64 reference 1 (Fin 0) ?X ?ys)) = tabulate2 1 1 (\<lambda>i j. NaN)"
    and "snd (train_f64 reference 1 (Fin 0) ?X ?ys) = None"
    by simp_all
  then show ?thesis
    by (simp add: tabulate2_def zeros_f64_def rnd_big)
qed

subsection \<open>Binarization\<close>

text \<open>
  C6. For every array \<open>A\<close> of shape \<open>(1, m)\<close>, \<^verbatim>\<open>binarize(A)\<close> raises nothing and returns an
  array of the same shape whose entry \<open>j\<close> is 1 when entry \<open>j\<close> of \<open>A\<close> is greater than 0.5
  and 0 otherwise; an entry equal to 0.5 becomes 0.
\<close>

theorem binarize_threshold:
  assumes "is_ndarray A" and "shape A = (1, m)"
  shows "\<exists>B. binarize A = Inr B \<and> is_ndarray B \<and> shape B = (1, m) \<and>
             (\<forall>j<m. item B 0 j = (if item A 0 j > 0.5 then 1 else 0)) \<and>
             (\<forall>j<m. item A 0 j = 0.5 \<longrightarrow> item B 0 j = 0)"
proof -
  let ?B = "A\<lparr>rows := (rows A)[0 := map (\<lambda>a. if a > 0.5 then 1 else 0) (rows A ! 0)]\<rparr>"
  from assms have sh: "shape0 A = 1" "shape1 A = m"
    by (simp_all add: shape_def)
  with assms(1) have len: "length (rows A) = 1" "length (rows A ! 0) = m"
    by (auto simp: is_ndarray_def list_all_length)
  have "binarize A = Inr ?B"
    using assms(1) sh by (intro binarize_eq) simp_all
  moreover have "is_ndarray ?B"
    using len sh by (cases "rows A") (simp_all add: is_ndarray_def)
  moreover have "shape ?B = (1, m)"
    using sh by (simp add: shape_def)
  moreover have item: "item ?B 0 j = (if item A 0 j > 0.5 then 1 else 0)" if "j < m" for j
    using that len by (simp add: item_def)
  moreover have "item ?B 0 j = 0" if "j < m" "item A 0 j = 0.5" for j
    using item [OF that(1)] that(2) by simp
  ultimately show ?thesis by blast
qed

theorem binarize_threshold_witness:
  "\<exists>B. binarize \<lparr>shape0 = 1, shape1 = 3, rows = [[1 / 4, 1 / 2, 3 / 4]]\<rparr> = Inr B \<and>
       shape B = (1, 3) \<and> item B 0 0 = 0 \<and> item B 0 1 = 0 \<and> item B 0 2 = 1"
proof -
  let ?A = "\<lparr>shape0 = 1, shape1 = 3, rows = [[1 / 4 :: real, 1 / 2, 3 / 4]]\<rparr>"
  have "is_ndarray ?A" "shape ?A = (1, 3)"
    by (simp_all add: is_ndarray_def shape_def)
  from binarize_threshold [OF this]
  obtain B where B: "binarize ?A = Inr B" "shape B = (1, 3)"
    and e: "\<forall>j<3. item B 0 j = (if item ?A 0 j > 0.5 then 1 else 0)"
    by blast
  from e have "item B 0 0 = (if item ?A 0 0 > 0.5 then 1 else 0)"
    and "item B 0 1 = (if item ?A 0 1 > 0.5 then 1 else 0)"
    and "item B 0 2 = (if item ?A 0 2 > 0.5 then 1 else 0)"
    by simp_all
  then have "item B 0 0 = 0" "item B 0 1 = 0" "item B 0 2 = 1"
    by (simp_all add: item_def)
  with B show ?thesis by blast
qed

text \<open>
  C7. For every array \<open>A\<close> of shape \<open>(1, m)\<close>, binarizing the result of \<^verbatim>\<open>binarize(A)\<close> again
  returns that result unchanged.
\<close>

theorem binarize_idempotent:
  assumes "is_ndarray A" and "shape A = (1, m)"
  shows "\<exists>B. binarize A = Inr B \<and> binarize B = Inr B"
proof -
  define f where "f = (\<lambda>a::real. if a > 0.5 then 1 else 0 :: real)"
  have binarize_f: "binarize C = Inr (C\<lparr>rows := (rows C)[0 := map f (rows C ! 0)]\<rparr>)"
    if "is_ndarray C" "0 < shape0 C" for C
    unfolding f_def using that by (rule binarize_eq)
  have twice: "map f (map f r) = map f r" for r
    by (simp add: f_def)
  let ?B = "A\<lparr>rows := (rows A)[0 := map f (rows A ! 0)]\<rparr>"
  from assms have sh: "shape0 A = 1" "shape1 A = m"
    by (simp_all add: shape_def)
  with assms(1) have len: "length (rows A) = 1" "length (rows A ! 0) = m"
    by (auto simp: is_ndarray_def list_all_length)
  have A: "binarize A = Inr ?B"
    using assms(1) sh by (intro binarize_f) simp_all
  have B: "is_ndarray ?B" "0 < shape0 ?B"
    using len sh by (cases "rows A"; simp add: is_ndarray_def)+
  have row: "rows ?B ! 0 = map f (rows A ! 0)"
    using len by simp
  have "binarize ?B = Inr (?B\<lparr>rows := (rows ?B)[0 := map f (rows ?B ! 0)]\<rparr>)"
    using B by (rule binarize_f)
  also have "?B\<lparr>rows := (rows ?B)[0 := map f (rows ?B ! 0)]\<rparr> = ?B"
    unfolding row twice by simp
  finally show ?thesis
    using A by simp
qed

theorem binarize_idempotent_witness:
  "\<exists>B. binarize \<lparr>shape0 = 1, shape1 = 3, rows = [[1 / 4, 1 / 2, 3 / 4]]\<rparr> = Inr B \<and>
       binarize B = Inr B"
proof -
  let ?A = "\<lparr>shape0 = 1, shape1 = 3, rows = [[1 / 4 :: real, 1 / 2, 3 / 4]]\<rparr>"
  have "is_ndarray ?A" "shape ?A = (1, 3)"
    by (simp_all add: is_ndarray_def shape_def)
  then show ?thesis
    by (rule binarize_idempotent)
qed

subsection \<open>Accuracy\<close>

text \<open>
  C8. The claim is that the accuracy reported for a partition is 100 times one minus the
  mean over its examples of the distance between the binarized prediction and the label
  of the same example. The evaluation cell subtracts the label column \<open>y\<close> of shape
  \<open>(m, 1)\<close> from the prediction row of shape \<open>(1, m)\<close>, which broadcasts to all \<open>m\<^sup>2\<close> pairs.
  Take one feature, the two examples 1 and -1 and the labels 1 and 0. One iteration with
  learning rate 2 gives weight 1 and bias 0. The binarized predictions are then 1 and 0,
  equal to the labels, so the accuracy of the claim is 100; the cell reports 50.
\<close>

theorem accuracy_mean_over_all_pairs:
  "train 1 2 \<lparr>shape0 = 1, shape1 = 2, rows = [[1, - 1]]\<rparr> [1, 0] =
     (\<lparr>st_W = \<lparr>shape0 = 1, shape1 = 1, rows = [[1]]\<rparr>, st_b = 0, st_costs = [[Some (ln 2)]]\<rparr>,
      None) \<and>
   predict \<lparr>shape0 = 1, shape1 = 1, rows = [[1]]\<rparr>
      \<lparr>shape0 = 1, shape1 = 2, rows = [[1, - 1]]\<rparr> 0 =
     Inr \<lparr>shape0 = 1, shape1 = 2, rows = [[sigmoid1 1, sigmoid1 (- 1)]]\<rparr> \<and>
   binarize \<lparr>shape0 = 1, shape1 = 2, rows = [[sigmoid1 1, sigmoid1 (- 1)]]\<rparr> =
     Inr \<lparr>shape0 = 1, shape1 = 2, rows = [[1, 0]]\<rparr> \<and>
   accuracy \<lparr>shape0 = 1, shape1 = 1, rows = [[1]]\<rparr> 0
      \<lparr>shape0 = 1, shape1 = 2, rows = [[1, - 1]]\<rparr> (reshape_column [1, 0]) = Inr (Some 50) \<and>
   accuracy_spec [1, 0] [1, 0] = 100"
proof -
  let ?W = "\<lparr>shape0 = 1, shape1 = 1, rows = [[1::real]]\<rparr>"
  let ?X = "\<lparr>shape0 = 1, shape1 = 2, rows = [[1::real, - 1]]\<rparr>"
  let ?P = "\<lparr>shape0 = 1, shape1 = 2, rows = [[sigmoid1 1, sigmoid1 (- 1)]]\<rparr>"
  let ?B = "\<lparr>shape0 = 1, shape1 = 2, rows = [[1::real, 0]]\<rparr>"
  have P: "predict ?W ?X 0 = Inr ?P"
    using predict_eq [of ?W ?X 0] by (simp add: tabulate2_def item_def upt_small)
  have "is_ndarray ?P" "0 < shape0 ?P"
    by (simp_all add: is_ndarray_def)
  from binarize_eq [OF this] have B: "binarize ?P = Inr ?B"
    using sigmoid1_gt_half [of 1] sigmoid1_gt_half [of "- 1"] by simp
  have D: "broadcast2 (\<lambda>p t. p - t) ?B (reshape_column [1, 0]) =
           Inr \<lparr>shape0 = 2, shape1 = 2, rows = [[0, - 1], [1, 0]]\<rparr>"
    by (simp add: broadcast2_def broadcast_dim_def reshape_column_def tabulate2_def item_def
          upt_small)
  have "accuracy ?W 0 ?X (reshape_column [1, 0]) = Inr (Some 50)"
    by (simp only: accuracy_def P B D sum.case) (simp add: np_mean_def map_nd_def)
  moreover have "accuracy_spec [1, 0] [1, 0] = 100"
    by (simp add: accuracy_spec_def)
  ultimately show ?thesis
    using P B train_one_step_example by simp
qed

subsection \<open>The label file\<close>

text \<open>
  C9. When \<^verbatim>\<open>labels.csv\<close> is absent and the image directory can be listed, the labelling
  cell creates the file with one row for each listed file, in the order of the listing,
  each with label 0, and that file is the label file when the notebook has run. When the
  directory cannot be listed, the notebook stops with the exception of the listing and
  creates nothing. When the file exists, the cell leaves the files as they are, and so
  does the whole notebook as far as the label file is concerned. Running the notebook a
  second time leaves the label file as the first run left it.
\<close>

theorem label_file_bootstrap:
  "(labels_csv d = None \<and> listing d = Inr filenames \<longrightarrow>
      (\<exists>df. label_images d = Inr (d\<lparr>labels_csv := Some df\<rparr>, ''Labels saved'') \<and>
            labels_csv (fst (prepare parse rd d)) = Some df \<and>
            map file_name df = filenames \<and>
            map is_guitar df = replicate (length filenames) 0 \<and>
            map fst df = [0..<length filenames])) \<and>
   (labels_csv d = None \<and> listing d = Inl e \<longrightarrow>
      label_images d = Inl e \<and> prepare parse rd d = (d, Some e)) \<and>
   (labels_csv d = Some df' \<longrightarrow>
      label_images d = Inr (d, ''labels.csv exists. Skipping'') \<and>
      labels_csv (fst (prepare parse rd d)) = Some df') \<and>
   labels_csv (fst (prepare parse rd (fst (prepare parse rd d)))) =
     labels_csv (fst (prepare parse rd d))"
proof (intro conjI impI)
  assume a: "labels_csv d = None \<and> listing d = Inr filenames"
  let ?df = "map (\<lambda>(i, f). (i, f, 0 :: int)) (enumerate 0 filenames)"
  have "label_images d = Inr (d\<lparr>labels_csv := Some ?df\<rparr>, ''Labels saved'')"
    using a by (simp add: label_images_def append_rows_eq)
  moreover have "labels_csv (fst (prepare parse rd d)) = Some ?df"
    using a by (simp add: prepare_labels_csv_cases append_rows_eq)
  ultimately show "\<exists>df. label_images d = Inr (d\<lparr>labels_csv := Some df\<rparr>, ''Labels saved'') \<and>
            labels_csv (fst (prepare parse rd d)) = Some df \<and>
            map file_name df = filenames \<and>
            map is_guitar df = replicate (length filenames) 0 \<and>
            map fst df = [0..<length filenames]"
    using new_rows [of filenames] by blast
next
  assume a: "labels_csv d = None \<and> listing d = Inl e"
  then show "label_images d = Inl e"
    by (simp add: label_images_def)
  from a show "prepare parse rd d = (d, Some e)"
    by (simp add: prepare_unlistable)
next
  assume "labels_csv d = Some df'"
  then show "label_images d = Inr (d, ''labels.csv exists. Skipping'')"
    and "labels_csv (fst (prepare parse rd d)) = Some df'"
    by (simp_all add: label_images_present prepare_labels_csv_present)
next
  show "labels_csv (fst (prepare parse rd (fst (prepare parse rd d)))) =
        labels_csv (fst (prepare parse rd d))"
  proof (cases "labels_csv (fst (prepare parse rd d))")
    case None
    then obtain e where "listing d = Inl e"
      by (cases "listing d") (simp_all add: prepare_labels_csv_cases split: option.splits)
    then have "listing (fst (prepare parse rd d)) = Inl e"
      by (simp add: prepare_listing)
    with None show ?thesis
      by (simp add: prepare_labels_csv_cases [of parse rd "fst (prepare parse rd d)"])
  next
    case (Some df)
    then show ?thesis
      by (simp add: prepare_labels_csv_present)
  qed
qed

theorem label_file_bootstrap_witness:
  "(\<exists>df. label_images \<lparr>labels_csv = None, listing = Inr [''a.png'', ''b.png''],
                            dataset_h5 = None :: nat dataset option\<rparr> =
           Inr (\<lparr>labels_csv = Some df, listing = Inr [''a.png'', ''b.png''], dataset_h5 = None\<rparr>,
                ''Labels saved'') \<and>
         labels_csv (fst (prepare Inr (\<lambda>p. Inl OSError)
            \<lparr>labels_csv = None, listing = Inr [''a.png'', ''b.png''],
              dataset_h5 = None :: nat dataset option\<rparr>)) = Some df \<and>
         map file_name df = [''a.png'', ''b.png''] \<and> map is_guitar df = [0, 0]) \<and>
   prepare Inr (\<lambda>p. Inl OSError)
      \<lparr>labels_csv = None, listing = Inl NotADirectoryError,
        dataset_h5 = None :: nat dataset option\<rparr> =
     (\<lparr>labels_csv = None, listing = Inl NotADirectoryError, dataset_h5 = None\<rparr>,
      Some NotADirectoryError) \<and>
   label_images \<lparr>labels_csv = Some [(0, ''a.png'', 1)], listing = Inr [''a.png'', ''b.png''],
                 dataset_h5 = None :: nat dataset option\<rparr> =
     Inr (\<lparr>labels_csv = Some [(0, ''a.png'', 1)], listing = Inr [''a.png'', ''b.png''],
           dataset_h5 = None\<rparr>, ''labels.csv exists. Skipping'')"
proof -
  let ?fs = "[''a.png'', ''b.png'']"
  let ?d = "\<lparr>labels_csv = None, listing = Inr ?fs, dataset_h5 = None :: nat dataset option\<rparr>"
  let ?u = "\<lparr>labels_csv = None, listing = Inl NotADirectoryError,
             dataset_h5 = None :: nat dataset option\<rparr>"
  let ?e = "\<lparr>labels_csv = Some [(0, ''a.png'', 1)], listing = Inr ?fs,
             dataset_h5 = None :: nat dataset option\<rparr>"
  let ?rd = "\<lambda>p::string. Inl OSError :: error + nat"
  let ?parse = "Inr :: csv_row list \<Rightarrow> error + csv_row list"
  have "\<exists>df. label_images ?d = Inr (?d\<lparr>labels_csv := Some df\<rparr>, ''Labels saved'') \<and>
            labels_csv (fst (prepare ?parse ?rd ?d)) = Some df \<and>
            map file_name df = ?fs \<and>
            map is_guitar df = replicate (length ?fs) 0 \<and>
            map fst df = [0..<length ?fs]"
    by (rule mp [OF conjunct1
          [OF label_file_bootstrap [of ?d ?fs ?parse ?rd OSError "[]"]]]) simp
  then obtain df where "label_images ?d = Inr (?d\<lparr>labels_csv := Some df\<rparr>, ''Labels saved'')"
    and "labels_csv (fst (prepare ?parse ?rd ?d)) = Some df"
    and "map file_name df = ?fs" and "map is_guitar df = replicate (length ?fs) 0"
    by (elim exE conjE)
  then have "label_images ?d = Inr (\<lparr>labels_csv = Some df, listing = Inr ?fs, dataset_h5 = None\<rparr>,
                  ''Labels saved'') \<and>
         labels_csv (fst (prepare ?parse ?rd ?d)) = Some df \<and>
         map file_name df = ?fs \<and> map is_guitar df = [0, 0]"
    by (simp add: numeral_2_eq_2)
  then have 1: "\<exists>df. label_images ?d = Inr (\<lparr>labels_csv = Some df, listing = Inr ?fs, dataset_h5 = None\<rparr>,
                  ''Labels saved'') \<and>
         labels_csv (fst (prepare ?parse ?rd ?d)) = Some df \<and>
         map file_name df = ?fs \<and> map is_guitar df = [0, 0]"
    by (rule exI)
  have "label_images ?u = Inl NotADirectoryError \<and>
        prepare ?parse ?rd ?u = (?u, Some NotADirectoryError)"
    by (rule mp [OF conjunct1 [OF conjunct2
          [OF label_file_bootstrap [of ?u "[]" ?parse ?rd NotADirectoryError "[]"]]]]) simp
  then have 2: "prepare ?parse ?rd ?u = (?u, Some NotADirectoryError)"
    by (rule conjunct2)
  have "label_images ?e = Inr (?e, ''labels.csv exists. Skipping'') \<and>
        labels_csv (fst (prepare ?parse ?rd ?e)) = Some [(0, ''a.png'', 1)]"
    by (rule mp [OF conjunct1 [OF conjunct2 [OF conjunct2
          [OF label_file_bootstrap [of ?e "[]" ?parse ?rd OSError "[(0, ''a.png'', 1)]"]]]]]) simp
  then have 3: "label_images ?e = Inr (?e, ''labels.csv exists. Skipping'')"
    by (rule conjunct1)
  from 1 2 3 show ?thesis
    by (intro conjI)
qed

subsection \<open>Order of the loaded examples\<close>

text \<open>
  C10. When the loading cell ends without an exception, \<open>images\<close> holds the decoded images
  and \<open>labels\<close> the labels in the reverse of the row order of the label file; position \<open>i\<close>
  of both holds row \<open>i\<close> of the reversed rows, so the label at position \<open>i\<close> is the label
  of the image at position \<open>i\<close>. The cell ends without an exception when every image of
  the label file can be read.
\<close>

theorem ingestion_reversed_aligned:
  "(load_dataset rd data = Inr (images, labels) \<longrightarrow>
      map Inr images = rev (map (\<lambda>r. rd (image_path (file_name r))) data) \<and>
      labels = rev (map (\<lambda>r. real_of_int (is_guitar r)) data) \<and>
      (\<forall>i<length data. rd (image_path (file_name (rev data ! i))) = Inr (images ! i) \<and>
                        labels ! i = real_of_int (is_guitar (rev data ! i)))) \<and>
   ((\<forall>r\<in>set data. \<exists>img. rd (image_path (file_name r)) = Inr img) \<longrightarrow>
      (\<exists>images labels. load_dataset rd data = Inr (images, labels)))"
proof (intro conjI impI)
  assume "load_dataset rd data = Inr (images, labels)"
  then have im: "map Inr images = rev (map (\<lambda>r. rd (image_path (file_name r))) data)"
    and la: "labels = rev (map (\<lambda>r. real_of_int (is_guitar r)) data)"
    by (simp_all add: load_dataset_Inr)
  show "map Inr images = rev (map (\<lambda>r. rd (image_path (file_name r))) data)"
    by (fact im)
  show "labels = rev (map (\<lambda>r. real_of_int (is_guitar r)) data)"
    by (fact la)
  show "\<forall>i<length data. rd (image_path (file_name (rev data ! i))) = Inr (images ! i) \<and>
                        labels ! i = real_of_int (is_guitar (rev data ! i))"
  proof (intro allI impI)
    fix i assume i: "i < length data"
    from im have len: "length images = length data"
      by (metis length_map length_rev)
    have "Inr (images ! i) = map Inr images ! i"
      using i len by simp
    also have "\<dots> = map (\<lambda>r. rd (image_path (file_name r))) (rev data) ! i"
      by (simp add: im rev_map)
    also have "\<dots> = rd (image_path (file_name (rev data ! i)))"
      using i by simp
    finally have 1: "rd (image_path (file_name (rev data ! i))) = Inr (images ! i)"
      by simp
    have "labels ! i = map (\<lambda>r. real_of_int (is_guitar r)) (rev data) ! i"
      by (simp add: la rev_map)
    also have "\<dots> = real_of_int (is_guitar (rev data ! i))"
      using i by simp
    finally show "rd (image_path (file_name (rev data ! i))) = Inr (images ! i) \<and>
                  labels ! i = real_of_int (is_guitar (rev data ! i))"
      using 1 by simp
  qed
next
  assume ok: "\<forall>r\<in>set data. \<exists>img. rd (image_path (file_name r)) = Inr img"
  define imgs where "imgs = map (\<lambda>r. projr (rd (image_path (file_name r)))) data"
  have "map Inr imgs = map (\<lambda>r. rd (image_path (file_name r))) data"
    unfolding imgs_def using ok by (induction data) auto
  then have "rev (map Inr imgs) = rev (map (\<lambda>r. rd (image_path (file_name r))) data)"
    by (rule arg_cong)
  then have "map Inr (rev imgs) = rev (map (\<lambda>r. rd (image_path (file_name r))) data)"
    by (simp only: rev_map)
  then have "load_dataset rd data =
             Inr (rev imgs, rev (map (\<lambda>r. real_of_int (is_guitar r)) data))"
    by (simp add: load_dataset_Inr)
  then show "\<exists>images labels. load_dataset rd data = Inr (images, labels)"
    by blast
qed

theorem ingestion_reversed_aligned_witness:
  "load_dataset (\<lambda>p. if p = ''./images/a.png'' then Inr (1::nat)
                      else if p = ''./images/b.png'' then Inr 2 else Inl OSError)
     [(0, ''a.png'', 1), (1, ''b.png'', 0)] = Inr ([2, 1], [0, 1]) \<and>
   [0, 1] = rev (map (\<lambda>r. real_of_int (is_guitar r)) [(0, ''a.png'', 1), (1, ''b.png'', 0)])"
proof -
  let ?rd = "\<lambda>p. if p = ''./images/a.png'' then Inr (1::nat)
                 else if p = ''./images/b.png'' then Inr 2 else Inl OSError"
  let ?data = "[(0, ''a.png'', 1), (1, ''b.png'', 0)] :: csv_row list"
  have run: "load_dataset ?rd ?data = Inr ([2, 1], [0, 1])"
    by (simp add: load_dataset_def image_path_def images_dir_def file_name_def is_guitar_def)
  have "map Inr [2, 1] = rev (map (\<lambda>r. ?rd (image_path (file_name r))) ?data) \<and>
        [0, 1] = rev (map (\<lambda>r. real_of_int (is_guitar r)) ?data) \<and>
        (\<forall>i<length ?data. ?rd (image_path (file_name (rev ?data ! i))) = Inr ([2, 1] ! i) \<and>
              [0, 1] ! i = real_of_int (is_guitar (rev ?data ! i)))"
    by (rule mp [OF conjunct1 [OF ingestion_reversed_aligned [of ?rd ?data "[2, 1]" "[0, 1]"]] run])
  then have "[0, 1] = rev (map (\<lambda>r. real_of_int (is_guitar r)) ?data)"
    by (elim conjE)
  with run show ?thesis
    by (rule conjI)
qed

subsection \<open>The split\<close>

text \<open>
  C2. The claim is that the training partition holds the first \<open>\<lfloor>0.7 N\<rfloor>\<close> examples. The
  cell computes \<^verbatim>\<open>int(0.7 * images_count)\<close> in binary64 arithmetic. For 90 examples the
  product is rounded to the binary64 number just below 63, so the training partition
  holds the first 62 examples and the test partition the other 28, while
  \<open>\<lfloor>0.7 \<sqdot> 90\<rfloor> = 63\<close>.
\<close>

theorem split_of_ninety_examples:
  "training_examples_count 90 = 62 \<and>
   test_examples_count 90 = 28 \<and>
   \<lfloor>0.7 * 90 :: real\<rfloor> = 63 \<and>
   split_dataset [0..<90] (replicate 90 0) =
     \<lparr>training_set_x = [0..<62], training_set_y = replicate 62 0,
      test_set_x = [62..<90], test_set_y = replicate 28 0\<rparr>"
proof -
  have "\<lfloor>0.7 * 90 :: real\<rfloor> = 63"
    by simp
  then show ?thesis
    by (simp add: test_examples_count_def split_dataset_def training_examples_count_90)
qed

end
